theory Spec2Isabelle
  imports Complex_Main "HOL-Library.Sublist"
begin
section \<open>The people table of static/js/role_organisation.js (second script)\<close>

text \<open>
  The script keeps its state in variables of one closure and in the DOM, and runs on one
  event loop: every handler runs to its end before the next one starts. The model is a
  record of that state, one function per handler, and the pending network requests as
  data: a request that \<^verbatim>\<open>fetch(url)\<close> has issued waits in \<open>outstanding\<close> together with
  the callback that the caller chained on the promise with \<^verbatim>\<open>.then\<close>.

  A person object is a value of the type variable \<open>'p\<close>: the table logic never reads its
  fields, only \<^verbatim>\<open>buildRow\<close> does, and a rendered row is identified with the person it
  was built from.
\<close>

definition ROW_HEIGHT :: int where "ROW_HEIGHT = 40"
definition VISIBLE_ROWS :: int where "VISIBLE_ROWS = 60"
definition PER_PAGE :: int where "PER_PAGE = 100"
definition thresholdPx :: int where "thresholdPx = 320"

text \<open>
  The query string that \<^verbatim>\<open>fetchPage\<close> builds, as its fields, and the \<^verbatim>\<open>append\<close>
  argument that the response handler has captured. An empty search is left out of the
  URL, which the server reads as an empty search.
\<close>

record fetch_call =
  rq_page :: int
  rq_per_page :: int
  rq_search :: string
  rq_active_only :: bool
  rq_sort_col :: string
  rq_sort_dir :: string
  rq_append :: bool

text \<open>
  The callbacks chained on the promise that \<^verbatim>\<open>fetchPage\<close> returns: by
  \<^verbatim>\<open>reloadPeopleAndResetScroll\<close>, by \<^verbatim>\<open>maybeLoadMoreSimple\<close>, by
  \<^verbatim>\<open>renderVirtual\<close> (with the values its closure has captured: visibleStart,
  visibleEnd, rangeUnchanged, bottomHeight) and by the initial load.
\<close>

datatype cont =
    ContReload
  | ContSimpleMore
  | ContVirtual int int bool int
  | ContInitial

text \<open>
  What the request settles with. \<open>Rejected\<close>: \<^verbatim>\<open>fetch\<close> or \<^verbatim>\<open>r.json()\<close> rejects (network
  error, a body that is not JSON). Otherwise the body is a JSON value: reading a property
  of \<^verbatim>\<open>null\<close> throws, and every other value is an object whose \<^verbatim>\<open>people\<close> and
  \<^verbatim>\<open>total\<close> may be missing (a number, a string or an array has neither). When present,
  \<^verbatim>\<open>people\<close> is an array of person objects and \<^verbatim>\<open>total\<close> an integer.
\<close>

datatype 'p response =
    Rejected
  | JNull
  | JObj "'p list option" "int option"

text \<open>
  What the browser measures: \<^verbatim>\<open>thead.offsetHeight\<close>, and \<^verbatim>\<open>clientHeight\<close> and
  \<^verbatim>\<open>scrollHeight\<close> of the scroll container.
\<close>

record env =
  thead_offsetHeight :: int
  clientHeight :: int
  scrollHeight :: int

record 'p table =
  allLoaded :: "'p list"
  totalCount :: int
  currentSearch :: string
  currentActiveOnly :: bool
  sortCol :: string
  sortDir :: string
  fetchInFlight :: bool
  theadHeight :: int
  lastVisibleStart :: int
  lastVisibleEnd :: int
  scrollTop :: real
  tbodyRows :: "'p list"
  spacerHeight :: int
  spacerShown :: bool
  bottomSpacer :: "(int \<times> bool) option"
  scrollInnerHeight :: int
  loadingShown :: bool
  simpleScroll :: bool
  sent :: "fetch_call list"
  outstanding :: "(fetch_call \<times> cont) list"

text \<open>
  \<open>scrollTop\<close> is \<^verbatim>\<open>peopleScroll.scrollTop\<close> (a number of pixels, not always whole);
  \<open>tbodyRows\<close> the \<^verbatim>\<open>tr.virtual-row\<close> elements of the table body; \<open>spacerHeight\<close> and
  \<open>spacerShown\<close> the style of \<^verbatim>\<open>#people-spacer\<close>; \<open>bottomSpacer\<close> the height and
  visibility of \<^verbatim>\<open>#people-spacer-bottom\<close>, \<open>None\<close> while the element does not exist;
  \<open>simpleScroll\<close> is \<^verbatim>\<open>window.CAMDRAM_SIMPLE_SCROLL\<close>; \<open>sent\<close> lists every request
  issued so far, oldest first.
\<close>

subsection \<open>fetchPage\<close>

text \<open>
  The synchronous part of \<^verbatim>\<open>fetchPage\<close>. The second component is the request handed to
  \<^verbatim>\<open>fetch\<close>; \<open>None\<close> is the early \<^verbatim>\<open>return Promise.resolve()\<close>.
\<close>

definition fetchPage :: "int \<Rightarrow> string \<Rightarrow> bool \<Rightarrow> 'p table \<Rightarrow> 'p table \<times> fetch_call option" where
  "fetchPage page search app st =
     (if fetchInFlight st then (st, None)
      else (st\<lparr>fetchInFlight := True,
                loadingShown := (if app then loadingShown st else True)\<rparr>,
            Some \<lparr>rq_page = page, rq_per_page = PER_PAGE, rq_search = search,
                  rq_active_only = currentActiveOnly st, rq_sort_col = sortCol st,
                  rq_sort_dir = sortDir st, rq_append = app\<rparr>))"

text \<open>The request leaves, and the caller's callback waits for it to settle.\<close>

definition issue :: "fetch_call \<Rightarrow> cont \<Rightarrow> 'p table \<Rightarrow> 'p table" where
  "issue rq k st = st\<lparr>sent := sent st @ [rq], outstanding := outstanding st @ [(rq, k)]\<rparr>"

text \<open>
  \<^verbatim>\<open>promise.then(callback)\<close> on what \<^verbatim>\<open>fetchPage\<close> returned: on the resolved promise of
  the early return the callback \<open>f\<close> runs as the next microtask, with nothing in between
  that touches this state; on a request that has left, the callback waits under its name
  \<open>k\<close> (\<open>runCont\<close> below maps each name to its callback).
\<close>

definition thenCallback :: "cont \<Rightarrow> ('p table \<Rightarrow> 'p table) \<Rightarrow> 'p table \<times> fetch_call option \<Rightarrow> 'p table" where
  "thenCallback k f r = (case r of (st, None) \<Rightarrow> f st | (st, Some rq) \<Rightarrow> issue rq k st)"

subsection \<open>ensureDataForRange\<close>

definition ensureDataForRange :: "int \<Rightarrow> int \<Rightarrow> 'p table \<Rightarrow> 'p table \<times> fetch_call option" where
  "ensureDataForRange start end st =
     (let needEnd = min (end + 1) (totalCount st);
          loaded = int (length (allLoaded st))
      in if needEnd \<le> loaded \<or> totalCount st = 0 then (st, None)
         else fetchPage (loaded div PER_PAGE + 1) (currentSearch st) True st)"

subsection \<open>renderVirtual\<close>

text \<open>
  The window arithmetic of \<^verbatim>\<open>renderVirtual\<close>: visibleStart, visibleEnd, topHeight and
  bottomHeight from \<^verbatim>\<open>totalCount\<close>, the header height and \<^verbatim>\<open>scrollTop\<close>.
\<close>

definition visibleWindow :: "int \<Rightarrow> int \<Rightarrow> real \<Rightarrow> int \<times> int \<times> int \<times> int" where
  "visibleWindow totalC thead scrollT =
     (let bodyScrollTop = max 0 (scrollT - real_of_int thead);
          visibleStart0 = max 0 \<lfloor>bodyScrollTop / real_of_int ROW_HEIGHT\<rfloor>;
          visibleEnd0 = min totalC (visibleStart0 + VISIBLE_ROWS);
          visibleStart = (if visibleStart0 \<ge> totalC then max 0 (totalC - VISIBLE_ROWS)
                          else visibleStart0);
          visibleEnd = (if visibleEnd0 \<le> visibleStart then min totalC (visibleStart + VISIBLE_ROWS)
                        else visibleEnd0);
          topHeight = visibleStart * ROW_HEIGHT;
          bottomHeight = max 0 ((totalC - visibleEnd) * ROW_HEIGHT)
      in (visibleStart, visibleEnd, topHeight, bottomHeight))"

text \<open>
  The callback that \<^verbatim>\<open>renderVirtual\<close> chains on \<^verbatim>\<open>ensureDataForRange\<close>. It reads
  \<^verbatim>\<open>allLoaded\<close> and \<^verbatim>\<open>totalCount\<close> when it runs. The loop builds the rows of the indices
  from visibleStart up to the smaller of visibleEnd and the loaded length; visibleStart is
  never negative where the closure is created.
\<close>

definition renderVirtualThen :: "int \<Rightarrow> int \<Rightarrow> bool \<Rightarrow> int \<Rightarrow> 'p table \<Rightarrow> 'p table" where
  "renderVirtualThen visibleStart visibleEnd rangeUnchanged bottomHeight st =
     (let loaded = int (length (allLoaded st));
          rowCount = min (visibleEnd - visibleStart) (loaded - visibleStart)
      in if rowCount \<le> 0 \<and> totalCount st > 0 then st
         else if rangeUnchanged \<and> rowCount > 0 \<and> int (length (tbodyRows st)) = rowCount then st
         else st\<lparr>tbodyRows :=
                    take (nat (min visibleEnd loaded - visibleStart))
                         (drop (nat visibleStart) (allLoaded st)),
                  bottomSpacer :=
                    (if bottomHeight > 0 then Some (bottomHeight, True)
                     else (case bottomSpacer st of None \<Rightarrow> None
                           | Some (h, _) \<Rightarrow> Some (h, False)))\<rparr>)"

definition renderVirtual :: "env \<Rightarrow> 'p table \<Rightarrow> 'p table" where
  "renderVirtual e st =
     (if totalCount st \<le> 0 then st
      else
        let th = (if theadHeight st = 0 then thead_offsetHeight e else theadHeight st);
            (visibleStart, visibleEnd, topHeight, bottomHeight) =
               visibleWindow (totalCount st) th (scrollTop st);
            rangeUnchanged =
               (lastVisibleStart st = visibleStart \<and> lastVisibleEnd st = visibleEnd);
            st1 = st\<lparr>theadHeight := th,
                     spacerHeight := topHeight,
                     spacerShown := (topHeight > 0),
                     lastVisibleStart := visibleStart,
                     lastVisibleEnd := visibleEnd\<rparr>
        in thenCallback (ContVirtual visibleStart visibleEnd rangeUnchanged bottomHeight)
             (renderVirtualThen visibleStart visibleEnd rangeUnchanged bottomHeight)
             (ensureDataForRange visibleStart visibleEnd st1))"

subsection \<open>Simple mode\<close>

text \<open>\<^verbatim>\<open>window.CAMDRAM_renderSimple\<close>: every loaded person is rendered, no spacers.\<close>

definition renderSimple :: "env \<Rightarrow> 'p table \<Rightarrow> 'p table" where
  "renderSimple e st =
     st\<lparr>tbodyRows := allLoaded st,
        spacerHeight := 0,
        spacerShown := False,
        bottomSpacer := None,
        theadHeight := thead_offsetHeight e,
        scrollInnerHeight := thead_offsetHeight e + int (length (allLoaded st)) * ROW_HEIGHT\<rparr>"

text \<open>
  \<^verbatim>\<open>maybeLoadMoreSimple\<close>. It has tested \<^verbatim>\<open>fetchInFlight\<close> itself, so \<^verbatim>\<open>fetchPage\<close>
  issues the request. Its callback is \<^verbatim>\<open>maybeLoadMoreSimple\<close> again; on the early
  return of \<^verbatim>\<open>fetchPage\<close>, which sees \<^verbatim>\<open>fetchInFlight\<close> set, that second call would
  return at its first test, so the callback run at once is the identity.
\<close>

definition maybeLoadMoreSimple :: "env \<Rightarrow> 'p table \<Rightarrow> 'p table" where
  "maybeLoadMoreSimple e st =
     (if fetchInFlight st then st
      else if int (length (allLoaded st)) \<ge> totalCount st then st
      else if \<not> (scrollTop st + real_of_int (clientHeight e)
                    \<ge> real_of_int (scrollHeight e - thresholdPx)) then st
      else thenCallback ContSimpleMore (\<lambda>st1. st1)
             (fetchPage (int (length (allLoaded st)) div PER_PAGE + 1) (currentSearch st) True st))"

subsection \<open>Settling a request\<close>

text \<open>The \<^verbatim>\<open>.catch\<close> handler of \<^verbatim>\<open>fetchPage\<close>.\<close>

definition fetchPageCatch :: "'p table \<Rightarrow> 'p table" where
  "fetchPageCatch st = st\<lparr>fetchInFlight := False, loadingShown := False\<rparr>"

text \<open>
  The \<^verbatim>\<open>.then\<close> handler of \<^verbatim>\<open>fetchPage\<close> on a body that is an object, in two parts:
  \<open>storePage\<close> is the handler up to \<^verbatim>\<open>lastVisibleEnd = -1\<close>, and \<open>fetchPageThen\<close> adds
  the rendering. \<^verbatim>\<open>updateCounts\<close> only writes the two counters of the page header, which
  are not part of the state here.
\<close>

definition storePage :: "bool \<Rightarrow> env \<Rightarrow> 'p list option \<Rightarrow> int option \<Rightarrow> 'p table \<Rightarrow> 'p table" where
  "storePage app e people tot st =
     (let st1 = (if app then st else st\<lparr>allLoaded := []\<rparr>);
          st2 = st1\<lparr>allLoaded := allLoaded st1 @ (case people of None \<Rightarrow> [] | Some ps \<Rightarrow> ps)\<rparr>;
          st3 = st2\<lparr>totalCount := (case tot of Some t \<Rightarrow> t
                                     | None \<Rightarrow> int (length (allLoaded st2)))\<rparr>;
          st4 = (if totalCount st3 > 0
                 then st3\<lparr>theadHeight := thead_offsetHeight e,
                          scrollInnerHeight := thead_offsetHeight e + totalCount st3 * ROW_HEIGHT\<rparr>
                 else st3)
      in st4\<lparr>fetchInFlight := False, loadingShown := False,
             lastVisibleStart := - 1, lastVisibleEnd := - 1\<rparr>)"

definition fetchPageThen :: "bool \<Rightarrow> env \<Rightarrow> 'p list option \<Rightarrow> int option \<Rightarrow> 'p table \<Rightarrow> 'p table" where
  "fetchPageThen app e people tot st =
     (let st5 = storePage app e people tot st
      in if simpleScroll st5 then renderSimple e st5 else renderVirtual e st5)"

text \<open>
  The promise chain \<^verbatim>\<open>fetch(url).then(json).then(...).catch(...)\<close>, with an exception
  on its way as a value. \<open>fetchPageChain\<close> is the chain before its \<^verbatim>\<open>.catch\<close>: a
  rejection of \<^verbatim>\<open>fetch\<close> or of \<^verbatim>\<open>r.json()\<close> skips the handler; on a \<^verbatim>\<open>null\<close> body the
  handler has run \<^verbatim>\<open>if (!append) allLoaded = []\<close> when \<^verbatim>\<open>res.people\<close> throws; an object
  body goes through the handler, whatever the HTTP status was (\<^verbatim>\<open>r.ok\<close> is not read).
  \<open>catchHandler\<close> is the \<^verbatim>\<open>.catch\<close>, whose two statements cannot throw, and
  \<open>fetchPagePromise\<close> is the promise that \<^verbatim>\<open>fetchPage\<close> returns, once settled.
\<close>

datatype 'a promise = Fulfilled 'a | Thrown 'a

definition fetchPageChain :: "bool \<Rightarrow> env \<Rightarrow> 'p response \<Rightarrow> 'p table \<Rightarrow> 'p table promise" where
  "fetchPageChain app e resp st =
     (case resp of
        Rejected \<Rightarrow> Thrown st
      | JNull \<Rightarrow> Thrown (if app then st else st\<lparr>allLoaded := []\<rparr>)
      | JObj people tot \<Rightarrow> Fulfilled (fetchPageThen app e people tot st))"

definition catchHandler :: "'p table promise \<Rightarrow> 'p table promise" where
  "catchHandler p =
     (case p of Fulfilled st \<Rightarrow> Fulfilled st | Thrown st \<Rightarrow> Fulfilled (fetchPageCatch st))"

definition fetchPagePromise :: "bool \<Rightarrow> env \<Rightarrow> 'p response \<Rightarrow> 'p table \<Rightarrow> 'p table promise" where
  "fetchPagePromise app e resp st = catchHandler (fetchPageChain app e resp st)"

text \<open>The state once the promise of \<^verbatim>\<open>fetchPage\<close> has settled.\<close>

definition fetchPageSettle :: "bool \<Rightarrow> env \<Rightarrow> 'p response \<Rightarrow> 'p table \<Rightarrow> 'p table" where
  "fetchPageSettle app e resp st =
     (case fetchPagePromise app e resp st of Fulfilled s \<Rightarrow> s | Thrown s \<Rightarrow> s)"

text \<open>The callback of \<^verbatim>\<open>reloadPeopleAndResetScroll\<close>.\<close>

definition reloadThen :: "env \<Rightarrow> 'p table \<Rightarrow> 'p table" where
  "reloadThen e st =
     (let st1 = st\<lparr>scrollTop := 0\<rparr>
      in if simpleScroll st1 then maybeLoadMoreSimple e st1 else renderVirtual e st1)"

fun runCont :: "cont \<Rightarrow> env \<Rightarrow> 'p table \<Rightarrow> 'p table" where
  "runCont ContReload e st = reloadThen e st"
| "runCont ContSimpleMore e st = maybeLoadMoreSimple e st"
| "runCont (ContVirtual vs ve ru bh) e st = renderVirtualThen vs ve ru bh st"
| "runCont ContInitial e st = (if simpleScroll st then maybeLoadMoreSimple e st else st)"

text \<open>
  The oldest outstanding request settles: the handlers of \<^verbatim>\<open>fetchPage\<close> run, then the
  callback its caller chained.
\<close>

definition settle :: "env \<Rightarrow> 'p response \<Rightarrow> 'p table \<Rightarrow> 'p table" where
  "settle e resp st =
     (case outstanding st of
        [] \<Rightarrow> st
      | (rq, k) # rest \<Rightarrow>
          runCont k e (fetchPageSettle (rq_append rq) e resp (st\<lparr>outstanding := rest\<rparr>)))"

subsection \<open>Query changes\<close>

definition reloadPeopleAndResetScroll :: "env \<Rightarrow> 'p table \<Rightarrow> 'p table" where
  "reloadPeopleAndResetScroll e st =
     thenCallback ContReload (reloadThen e) (fetchPage 1 (currentSearch st) False st)"

text \<open>
  \<^verbatim>\<open>String.prototype.trim\<close> and \<^verbatim>\<open>toLowerCase\<close> on the ASCII range (a \<open>char\<close> is a
  byte): the white space removed is tab, line feed, vertical tab, form feed, carriage
  return and space.
\<close>

definition isWhite :: "char \<Rightarrow> bool" where
  "isWhite c = (c \<in> set [CHR 0x09, CHR 0x0A, CHR 0x0B, CHR 0x0C, CHR 0x0D, CHR 0x20])"

definition trim :: "string \<Rightarrow> string" where
  "trim s = rev (dropWhile isWhite (rev (dropWhile isWhite s)))"

definition toLowerCase :: "string \<Rightarrow> string" where
  "toLowerCase s =
     map (\<lambda>c. let n = (of_char c :: nat) in if 65 \<le> n \<and> n \<le> 90 then char_of (n + 32) else c) s"

text \<open>The timer callback of the search box (the debounce timer has fired).\<close>

definition searchInput :: "string \<Rightarrow> env \<Rightarrow> 'p table \<Rightarrow> 'p table" where
  "searchInput v e st = reloadPeopleAndResetScroll e (st\<lparr>currentSearch := trim v\<rparr>)"

definition activeOnlyChange :: "bool \<Rightarrow> env \<Rightarrow> 'p table \<Rightarrow> 'p table" where
  "activeOnlyChange checked e st = reloadPeopleAndResetScroll e (st\<lparr>currentActiveOnly := checked\<rparr>)"

text \<open>
  A click on the header cell with \<^verbatim>\<open>data-col\<close> = \<open>clickedCol\<close> and \<^verbatim>\<open>data-type\<close> = \<open>ty\<close>.
\<close>

definition sortClick :: "string \<Rightarrow> string \<Rightarrow> env \<Rightarrow> 'p table \<Rightarrow> 'p table" where
  "sortClick clickedCol ty e st =
     (if clickedCol = [] then st
      else reloadPeopleAndResetScroll e
             (if clickedCol = sortCol st
              then st\<lparr>sortDir := (if sortDir st = ''asc'' then ''desc'' else ''asc'')\<rparr>
              else st\<lparr>sortCol := clickedCol,
                      sortDir := (if ty = ''string'' then ''asc'' else ''desc'')\<rparr>))"

text \<open>
  The user has scrolled to offset \<open>v\<close> and the scroll listener runs: \<^verbatim>\<open>maybeLoadMoreSimple\<close>
  in simple mode, else \<^verbatim>\<open>onScroll\<close>, whose animation-frame callback is \<^verbatim>\<open>renderVirtual\<close>
  (one event here is one callback that runs; a callback that \<^verbatim>\<open>onScroll\<close> cancels never
  does). The script registers the listener by its constant \<^verbatim>\<open>SIMPLE_SCROLL\<close>, which is
  also the value it gives \<^verbatim>\<open>window.CAMDRAM_SIMPLE_SCROLL\<close>.
\<close>

definition scrollTo :: "real \<Rightarrow> env \<Rightarrow> 'p table \<Rightarrow> 'p table" where
  "scrollTo v e st =
     (let st1 = st\<lparr>scrollTop := v\<rparr>
      in if simpleScroll st1 then maybeLoadMoreSimple e st1 else renderVirtual e st1)"

subsection \<open>Page load\<close>

text \<open>
  The variables as the script initialises them, from \<^verbatim>\<open>data.totalPeople || 0\<close>, the
  \<^verbatim>\<open>data-sort-col\<close> and \<^verbatim>\<open>data-sort-dir\<close> attributes (or their defaults) and the mode,
  with an empty table body; then the unconditional \<^verbatim>\<open>fetchPage(1, "", false)\<close>.
\<close>

definition initTable :: "int \<Rightarrow> string \<Rightarrow> string \<Rightarrow> bool \<Rightarrow> 'p table" where
  "initTable totalPeople col dir simple =
     \<lparr>allLoaded = [], totalCount = totalPeople, currentSearch = [],
      currentActiveOnly = False,
      sortCol = (if col = [] then ''count'' else col),
      sortDir = (if dir = [] then ''desc'' else dir),
      fetchInFlight = False, theadHeight = 0,
      lastVisibleStart = - 1, lastVisibleEnd = - 1,
      scrollTop = 0, tbodyRows = [], spacerHeight = 0, spacerShown = False,
      bottomSpacer = None, scrollInnerHeight = 0, loadingShown = False,
      simpleScroll = simple, sent = [], outstanding = []\<rparr>"

definition pageLoad :: "env \<Rightarrow> int \<Rightarrow> string \<Rightarrow> string \<Rightarrow> bool \<Rightarrow> 'p table" where
  "pageLoad e totalPeople col dir simple =
     thenCallback ContInitial (runCont ContInitial e)
       (fetchPage 1 [] False (initTable totalPeople col dir simple))"

subsection \<open>The event loop\<close>

datatype 'p event =
    SearchInput string
  | ActiveOnlyChange bool
  | SortClick string string
  | Scroll real
  | Settle "'p response"

fun step :: "env \<Rightarrow> 'p event \<Rightarrow> 'p table \<Rightarrow> 'p table" where
  "step e (SearchInput v) st = searchInput v e st"
| "step e (ActiveOnlyChange b) st = activeOnlyChange b e st"
| "step e (SortClick c ty) st = sortClick c ty e st"
| "step e (Scroll v) st = scrollTo v e st"
| "step e (Settle r) st = settle e r st"

fun run :: "(env \<times> 'p event) list \<Rightarrow> 'p table \<Rightarrow> 'p table" where
  "run [] st = st"
| "run ((e, ev) # evs) st = run evs (step e ev st)"

text \<open>
  A run of \<^verbatim>\<open>ensureDataForRange\<close> calls with nothing settling in between: the state
  after the last call and the requests that have left, in order.
\<close>

fun ensureCalls :: "(int \<times> int) list \<Rightarrow> 'p table \<Rightarrow> 'p table \<times> fetch_call list" where
  "ensureCalls [] st = (st, [])"
| "ensureCalls ((s, t) # cs) st =
     (case ensureDataForRange s t st of
        (st1, r) \<Rightarrow>
          (case ensureCalls cs st1 of
             (st2, rs) \<Rightarrow> (st2, (case r of None \<Rightarrow> [] | Some rq \<Rightarrow> [rq]) @ rs)))"

subsection \<open>Predicates used in the statements\<close>

fun isSettle :: "'p event \<Rightarrow> bool" where
  "isSettle (Settle r) = True"
| "isSettle _ = False"

text \<open>
  How the request log and the in-flight flag may differ between two states when nothing
  has settled in between: either both are as before, or the flag was clear, is set now,
  and exactly one request has left.
\<close>

definition sf :: "'p table \<Rightarrow> 'p table \<Rightarrow> bool" where
  "sf st st' =
     (if fetchInFlight st
      then fetchInFlight st' \<and> sent st' = sent st \<and> outstanding st' = outstanding st
      else (\<not> fetchInFlight st' \<and> sent st' = sent st \<and> outstanding st' = outstanding st) \<or>
           (fetchInFlight st' \<and>
            (\<exists>rq k. sent st' = sent st @ [rq] \<and> outstanding st' = outstanding st @ [(rq, k)])))"

text \<open>The flag is set exactly while a request is outstanding, and there is at most one.\<close>

definition wf :: "'p table \<Rightarrow> bool" where
  "wf st = ((fetchInFlight st \<longleftrightarrow> outstanding st \<noteq> []) \<and> length (outstanding st) \<le> 1)"

subsection \<open>Example states\<close>

definition exEnv :: env where
  "exEnv = \<lparr>thead_offsetHeight = 0, clientHeight = 600, scrollHeight = 700\<rparr>"

text \<open>
  Virtual mode, page 1 of 250 people loaded, scrolled to the top, nothing in flight.
\<close>

definition exVirtual :: "string table" where
  "exVirtual =
     (initTable 250 [] [] False)\<lparr>allLoaded := replicate 100 ''alice''\<rparr>"

text \<open>Groups of fields, to say in one equation that a handler leaves them alone.\<close>

definition core :: "'p table \<Rightarrow> 'p list \<times> int \<times> string \<times> bool \<times> string \<times> string \<times> bool" where
  "core st = (allLoaded st, totalCount st, currentSearch st, currentActiveOnly st,
              sortCol st, sortDir st, simpleScroll st)"

definition geometry :: "'p table \<Rightarrow> real \<times> int \<times> int \<times> int \<times> bool" where
  "geometry st = (scrollTop st, lastVisibleStart st, lastVisibleEnd st,
                  spacerHeight st, spacerShown st)"

definition shown :: "'p table \<Rightarrow> 'p list \<times> (int \<times> bool) option" where
  "shown st = (tbodyRows st, bottomSpacer st)"

text \<open>The responses on which the promise chain of \<^verbatim>\<open>fetchPage\<close> reaches its \<^verbatim>\<open>.catch\<close>.\<close>

fun failed :: "'p response \<Rightarrow> bool" where
  "failed Rejected = True"
| "failed JNull = True"
| "failed (JObj people tot) = False"

text \<open>The request for page 2 of the unfiltered list in the default order.\<close>

definition exPage2 :: fetch_call where
  "exPage2 = \<lparr>rq_page = 2, rq_per_page = 100, rq_search = [], rq_active_only = False,
              rq_sort_col = ''count'', rq_sort_dir = ''desc'', rq_append = True\<rparr>"

text \<open>The events that change the query: search text, active-only flag, sort column or direction.\<close>

fun isQueryChange :: "'p event \<Rightarrow> bool" where
  "isQueryChange (SearchInput v) = True"
| "isQueryChange (ActiveOnlyChange b) = True"
| "isQueryChange (SortClick c ty) = (c \<noteq> [])"
| "isQueryChange _ = False"

text \<open>
  Simple mode (the mode the script sets), 250 people on the server: the page has loaded
  and page 1 has arrived; the viewport of \<open>exEnv\<close> is within 320 pixels of the bottom, so
  the request for page 2 has left.
\<close>

definition exPage1 :: "string response" where
  "exPage1 = JObj (Some (replicate 100 ''alice'')) (Some 250)"

definition exSimple :: "string table" where
  "exSimple = settle exEnv exPage1 (pageLoad exEnv 250 [] [] True)"

text \<open>The answer to that request for page 2 of the unfiltered list.\<close>

definition exStale :: "string response" where
  "exStale = JObj (Some (replicate 100 ''carol'')) (Some 250)"

text \<open>Virtual mode, scrolled to row 10 with rows 10 to 69 displayed.\<close>

definition exScrolled :: "string table" where
  "exScrolled = scrollTo 400 exEnv exVirtual"

text \<open>The search box changes to "bob" while that request is in flight, and then it settles.\<close>

definition exSearchBob :: "string table" where
  "exSearchBob = searchInput ''bob'' exEnv exSimple"

definition exAfterStale :: "string table" where
  "exAfterStale = settle exEnv exStale exSearchBob"

text \<open>A query change with nothing in flight, in the scrolled table.\<close>

definition exQueryChanged :: "string table" where
  "exQueryChanged = searchInput ''bob'' exEnv exScrolled"

text \<open>A search that matches nobody, and its answer.\<close>

definition exNoMatch :: "string response" where
  "exNoMatch = JObj (Some []) (Some 0)"

definition exEmptied :: "string table" where
  "exEmptied = settle exEnv exNoMatch (searchInput ''zzz'' exEnv exScrolled)"

text \<open>
  The scenario of the window at row 120: scrolled there with page 1 loaded, and after
  the answer to the request made there.
\<close>

definition exAtRow120 :: "string table" where
  "exAtRow120 = scrollTo 4800 exEnv exVirtual"

definition exPage2Resp :: "string response" where
  "exPage2Resp = JObj (Some (replicate 100 ''bob'')) (Some 250)"

definition exAfterPage2 :: "string table" where
  "exAfterPage2 = settle exEnv exPage2Resp exAtRow120"

text \<open>
  The same request answered by an error page with a JSON body such as
  \<^verbatim>\<open>{"error": "..."}\<close>: an object with neither \<^verbatim>\<open>people\<close> nor \<^verbatim>\<open>total\<close>.
\<close>

definition exErrorBody :: "string response" where
  "exErrorBody = JObj None None"

definition exAfterError :: "string table" where
  "exAfterError = settle exEnv exErrorBody exAtRow120"

section \<open>The source list of static/js/role_organisation.js (first script)\<close>

text \<open>
  The role-consolidation page lists the role names that match the search box. The list is
  filled in batches of \<^verbatim>\<open>SOURCE_RENDER_CHUNK\<close> items, one batch per animation frame, and
  \<^verbatim>\<open>renderToken\<close> tells a batch whether its rendering is still the current one. The state
  is the variables of the closure, the \<^verbatim>\<open>li\<close> elements of \<^verbatim>\<open>#role-org-source-list\<close>, the
  text of \<^verbatim>\<open>#role-org-selected-meta\<close> (as the numbers it shows) and the callbacks handed to
  \<^verbatim>\<open>requestAnimationFrame\<close> that have not run yet: each is
  \<^verbatim>\<open>appendChunk(endIdx)\<close> inside the closure of one \<^verbatim>\<open>renderSourceList\<close> call, that is,
  the \<^verbatim>\<open>token\<close> and \<^verbatim>\<open>filtered\<close> of that call and the start index. \<^verbatim>\<open>renderToken\<close> is a
  JavaScript number that only \<^verbatim>\<open>++\<close> changes; it is an unbounded integer here (the
  increment is exact below 2^53).
\<close>

definition SOURCE_RENDER_CHUNK :: nat where "SOURCE_RENDER_CHUNK = 220"

record role =
  role_name :: string
  role_count :: "int option"

record source_item =
  item_name :: string
  item_count :: "int option"
  item_checked :: bool

record org =
  roleOptions :: "role list"
  selected :: "string set"
  query :: string
  renderToken :: int
  sourceList :: "source_item list"
  selectedMeta :: "nat \<times> (nat \<times> nat) option"
  rafQueue :: "(int \<times> role list \<times> nat) list"

text \<open>\<^verbatim>\<open>s.indexOf(q) >= 0\<close>\<close>

fun includesStr :: "string \<Rightarrow> string \<Rightarrow> bool" where
  "includesStr [] q = (q = [])"
| "includesStr (c # cs) q = (prefix q (c # cs) \<or> includesStr cs q)"

definition roleMatchesQuery :: "role \<Rightarrow> string \<Rightarrow> bool" where
  "roleMatchesQuery r q = (if q = [] then True else includesStr (toLowerCase (role_name r)) q)"

definition createSourceItem :: "string set \<Rightarrow> role \<Rightarrow> source_item" where
  "createSourceItem sel r =
     \<lparr>item_name = role_name r, item_count = role_count r, item_checked = (role_name r \<in> sel)\<rparr>"

text \<open>
  \<^verbatim>\<open>appendChunk(startIdx)\<close> in the closure with \<open>token\<close> and \<open>filtered\<close>. The loop appends
  the items of the indices from startIdx up to endIdx.
\<close>

definition appendChunk :: "int \<Rightarrow> role list \<Rightarrow> nat \<Rightarrow> org \<Rightarrow> org" where
  "appendChunk token filtered startIdx st =
     (if token \<noteq> renderToken st then st
      else
        let endIdx = min (length filtered) (startIdx + SOURCE_RENDER_CHUNK);
            st1 = st\<lparr>sourceList := sourceList st @
                       map (createSourceItem (selected st))
                           (take (endIdx - startIdx) (drop startIdx filtered))\<rparr>
        in if endIdx < length filtered
           then st1\<lparr>rafQueue := rafQueue st1 @ [(token, filtered, endIdx)]\<rparr>
           else st1)"

definition renderSourceList :: "org \<Rightarrow> org" where
  "renderSourceList st =
     (let q = toLowerCase (trim (query st));
          filtered = filter (\<lambda>r. roleMatchesQuery r q) (roleOptions st);
          token = renderToken st + 1;
          st1 = st\<lparr>renderToken := token,
                   sourceList := [],
                   selectedMeta := (card (selected st),
                                    Some (length filtered, length (roleOptions st)))\<rparr>
      in appendChunk token filtered 0 st1)"

text \<open>
  One animation frame: the callbacks registered before it run in order; those they
  register wait for the next frame.
\<close>

definition runJob :: "int \<times> role list \<times> nat \<Rightarrow> org \<Rightarrow> org" where
  "runJob job st = (case job of (token, filtered, startIdx) \<Rightarrow> appendChunk token filtered startIdx st)"

definition animationFrame :: "org \<Rightarrow> org" where
  "animationFrame st = fold runJob (rafQueue st) (st\<lparr>rafQueue := []\<rparr>)"

text \<open>
  The handlers that call \<^verbatim>\<open>renderSourceList\<close>: the timer of the search box,
  \<^verbatim>\<open>applyPayload\<close> (after the bootstrap fetch and after a removal), and the success
  branch of \<^verbatim>\<open>consolidate\<close>, which empties the selection first. The checkbox listener
  only changes the selection.
\<close>

definition orgSearchInput :: "string \<Rightarrow> org \<Rightarrow> org" where
  "orgSearchInput v st = renderSourceList (st\<lparr>query := v\<rparr>)"

definition applyPayload :: "role list \<Rightarrow> org \<Rightarrow> org" where
  "applyPayload roles st = renderSourceList (st\<lparr>roleOptions := roles\<rparr>)"

definition consolidated :: "role list \<Rightarrow> org \<Rightarrow> org" where
  "consolidated roles st = applyPayload roles (st\<lparr>selected := {}\<rparr>)"

definition toggleRole :: "string \<Rightarrow> bool \<Rightarrow> org \<Rightarrow> org" where
  "toggleRole name checked st =
     (if name = [] then st
      else let sel = (if checked then insert name (selected st) else selected st - {name})
           in st\<lparr>selected := sel, selectedMeta := (card sel, None)\<rparr>)"

datatype org_event =
    OrgSearch string
  | OrgPayload "role list"
  | OrgSaved "role list"
  | OrgToggle string bool
  | OrgFrame

fun orgStep :: "org_event \<Rightarrow> org \<Rightarrow> org" where
  "orgStep (OrgSearch v) st = orgSearchInput v st"
| "orgStep (OrgPayload roles) st = applyPayload roles st"
| "orgStep (OrgSaved roles) st = consolidated roles st"
| "orgStep (OrgToggle name checked) st = toggleRole name checked st"
| "orgStep OrgFrame st = animationFrame st"

fun orgRun :: "org_event list \<Rightarrow> org \<Rightarrow> org" where
  "orgRun [] st = st"
| "orgRun (ev # evs) st = orgRun evs (orgStep ev st)"

text \<open>The page as the script finds it: no roles yet, an empty list, token 0.\<close>

definition orgInit :: org where
  "orgInit = \<lparr>roleOptions = [], selected = {}, query = [], renderToken = 0, sourceList = [],
              selectedMeta = (0, None), rafQueue = []\<rparr>"

text \<open>The events that start a rendering of the list.\<close>

fun startsRender :: "org_event \<Rightarrow> bool" where
  "startsRender (OrgSearch v) = True"
| "startsRender (OrgPayload roles) = True"
| "startsRender (OrgSaved roles) = True"
| "startsRender _ = False"

text \<open>The roles that the current query selects, and the invariant of the pending callbacks.\<close>

definition currentFiltered :: "org \<Rightarrow> role list" where
  "currentFiltered st =
     filter (\<lambda>r. roleMatchesQuery r (toLowerCase (trim (query st)))) (roleOptions st)"

definition isCurrent :: "int \<Rightarrow> int \<times> role list \<times> nat \<Rightarrow> bool" where
  "isCurrent token job = (fst job = token)"

definition good :: "org \<Rightarrow> bool" where
  "good st =
     ((\<forall>job \<in> set (rafQueue st). fst job \<le> renderToken st) \<and>
      (case filter (isCurrent (renderToken st)) (rafQueue st) of
         [] \<Rightarrow> map item_name (sourceList st) = map role_name (currentFiltered st)
       | [job] \<Rightarrow> fst (snd job) = currentFiltered st \<and> snd (snd job) < length (currentFiltered st) \<and>
                  map item_name (sourceList st)
                    = map role_name (take (snd (snd job)) (currentFiltered st))
       | _ \<Rightarrow> False))"

text \<open>Three hundred roles, of which the search "a" selects 250.\<close>

definition exRoles :: "role list" where
  "exRoles = replicate 250 \<lparr>role_name = ''Actor'', role_count = Some 3\<rparr>
           @ replicate 50 \<lparr>role_name = ''Sound'', role_count = None\<rparr>"

definition exOrg :: org where
  "exOrg = orgRun [OrgPayload exRoles, OrgSearch ''a''] orgInit"

section \<open>Lemmas on the people table\<close>

subsection \<open>fetchPage and ensureDataForRange\<close>

lemma fetchPage_busy: "fetchInFlight st \<Longrightarrow> fetchPage p s a st = (st, None)"
  by (simp add: fetchPage_def)

lemma fetchPage_idle:
  "\<not> fetchInFlight st \<Longrightarrow>
   fetchPage p s a st =
     (st\<lparr>fetchInFlight := True, loadingShown := (if a then loadingShown st else True)\<rparr>,
      Some \<lparr>rq_page = p, rq_per_page = PER_PAGE, rq_search = s,
            rq_active_only = currentActiveOnly st, rq_sort_col = sortCol st,
            rq_sort_dir = sortDir st, rq_append = a\<rparr>)"
  by (simp add: fetchPage_def)

lemma fetchPage_Some:
  "fetchPage p s a st = (st', Some rq) \<Longrightarrow>
     \<not> fetchInFlight st \<and> fetchInFlight st' \<and> rq_page rq = p \<and> rq_search rq = s \<and> rq_append rq = a"
  by (cases "fetchInFlight st") (auto simp: fetchPage_busy fetchPage_idle)

lemma fetchPage_None:
  "fetchPage p s a st = (st', None) \<Longrightarrow> fetchInFlight st \<and> st' = st"
  by (cases "fetchInFlight st") (auto simp: fetchPage_busy fetchPage_idle)

lemma fetchPageSettle_cases:
  "fetchPageSettle app e resp st =
     (case resp of
        Rejected \<Rightarrow> fetchPageCatch st
      | JNull \<Rightarrow> fetchPageCatch (if app then st else st\<lparr>allLoaded := []\<rparr>)
      | JObj people tot \<Rightarrow> fetchPageThen app e people tot st)"
  by (cases resp)
     (simp_all add: fetchPageSettle_def fetchPagePromise_def fetchPageChain_def catchHandler_def)

lemma fetchPagePromise_fulfilled:
  "fetchPagePromise app e resp st = Fulfilled (fetchPageSettle app e resp st)"
  by (cases resp)
     (simp_all add: fetchPageSettle_def fetchPagePromise_def fetchPageChain_def catchHandler_def)

lemma ensure_busy: "fetchInFlight st \<Longrightarrow> ensureDataForRange s t st = (st, None)"
  by (simp add: ensureDataForRange_def Let_def fetchPage_busy)

lemma ensure_covered:
  "min (t + 1) (totalCount st) \<le> int (length (allLoaded st)) \<or> totalCount st = 0 \<Longrightarrow>
   ensureDataForRange s t st = (st, None)"
  by (simp add: ensureDataForRange_def Let_def)

lemma ensure_idle:
  "\<not> fetchInFlight st \<Longrightarrow>
   \<not> (min (t + 1) (totalCount st) \<le> int (length (allLoaded st)) \<or> totalCount st = 0) \<Longrightarrow>
   ensureDataForRange s t st =
     (st\<lparr>fetchInFlight := True\<rparr>,
      Some \<lparr>rq_page = int (length (allLoaded st)) div PER_PAGE + 1, rq_per_page = PER_PAGE,
            rq_search = currentSearch st,
            rq_active_only = currentActiveOnly st, rq_sort_col = sortCol st,
            rq_sort_dir = sortDir st, rq_append = True\<rparr>)"
  by (simp add: ensureDataForRange_def Let_def fetchPage_idle)

lemma ensure_Some:
  "ensureDataForRange s t st = (st', Some rq) \<Longrightarrow>
     \<not> fetchInFlight st \<and> fetchInFlight st' \<and>
     rq_page rq = int (length (allLoaded st)) div PER_PAGE + 1 \<and>
     rq_search rq = currentSearch st \<and> rq_append rq"
  by (auto simp: ensureDataForRange_def Let_def split: if_splits dest: fetchPage_Some)

lemma ensure_None: "ensureDataForRange s t st = (st', None) \<Longrightarrow> st' = st"
  by (auto simp: ensureDataForRange_def Let_def split: if_splits dest: fetchPage_None)

lemma length_exVirtual: "length (allLoaded exVirtual) = 100"
  by (simp add: exVirtual_def initTable_def)

lemma exVirtual_fields:
  "totalCount exVirtual = 250" "\<not> fetchInFlight exVirtual" "currentSearch exVirtual = []"
  "sent exVirtual = []" "outstanding exVirtual = []" "\<not> simpleScroll exVirtual"
  by (simp_all add: exVirtual_def initTable_def)

text \<open>
  C7. \<^verbatim>\<open>ensureDataForRange(start, end)\<close> takes needEnd = min(end + 1, totalCount). When
  needEnd is at most the number of loaded people, or totalCount is 0, it returns the
  resolved promise: the state is as it was and no request leaves. Whenever a request does
  leave, its page number is floor(loaded / PER_PAGE) + 1, and a request leaves in every
  other case in which none is in flight.
\<close>

theorem ensureDataForRange_next_page:
  "(min (t + 1) (totalCount st) \<le> int (length (allLoaded st)) \<or> totalCount st = 0
      \<longrightarrow> ensureDataForRange s t st = (st, None)) \<and>
   (\<forall>st' rq. ensureDataForRange s t st = (st', Some rq)
      \<longrightarrow> rq_page rq = int (length (allLoaded st)) div PER_PAGE + 1) \<and>
   (\<not> (min (t + 1) (totalCount st) \<le> int (length (allLoaded st)) \<or> totalCount st = 0)
      \<and> \<not> fetchInFlight st
      \<longrightarrow> (\<exists>st' rq. ensureDataForRange s t st = (st', Some rq)
                     \<and> rq_page rq = int (length (allLoaded st)) div PER_PAGE + 1))"
proof (intro conjI allI impI)
  assume "min (t + 1) (totalCount st) \<le> int (length (allLoaded st)) \<or> totalCount st = 0"
  then show "ensureDataForRange s t st = (st, None)" by (rule ensure_covered)
next
  fix st' rq
  assume "ensureDataForRange s t st = (st', Some rq)"
  then show "rq_page rq = int (length (allLoaded st)) div PER_PAGE + 1"
    using ensure_Some by blast
next
  assume a: "\<not> (min (t + 1) (totalCount st) \<le> int (length (allLoaded st)) \<or> totalCount st = 0)
             \<and> \<not> fetchInFlight st"
  then have "ensureDataForRange s t st =
     (st\<lparr>fetchInFlight := True\<rparr>,
      Some \<lparr>rq_page = int (length (allLoaded st)) div PER_PAGE + 1, rq_per_page = PER_PAGE,
            rq_search = currentSearch st,
            rq_active_only = currentActiveOnly st, rq_sort_col = sortCol st,
            rq_sort_dir = sortDir st, rq_append = True\<rparr>)"
    by (simp add: ensure_idle)
  then show "\<exists>st' rq. ensureDataForRange s t st = (st', Some rq)
                     \<and> rq_page rq = int (length (allLoaded st)) div PER_PAGE + 1"
    by simp
qed

theorem ensureDataForRange_next_page_witness:
  "ensureDataForRange 0 60 exVirtual = (exVirtual, None) \<and>
   (\<exists>st' rq. ensureDataForRange 120 180 exVirtual = (st', Some rq) \<and> rq_page rq = 2)"
  using ensureDataForRange_next_page [of 60 exVirtual 0]
        ensureDataForRange_next_page [of 180 exVirtual 120]
  by (simp add: length_exVirtual exVirtual_fields PER_PAGE_def)

subsection \<open>Single flight\<close>

lemma sf_same:
  "fetchInFlight st' = fetchInFlight st \<Longrightarrow> sent st' = sent st \<Longrightarrow>
   outstanding st' = outstanding st \<Longrightarrow> sf st st'"
  by (simp add: sf_def)

lemma sf_refl: "sf st st"
  by (simp add: sf_same)

lemma sf_trans: "sf a b \<Longrightarrow> sf b c \<Longrightarrow> sf a c"
  unfolding sf_def by (cases "fetchInFlight a"; cases "fetchInFlight b") auto

lemma sf_left:
  "fetchInFlight a' = fetchInFlight a \<Longrightarrow> sent a' = sent a \<Longrightarrow>
   outstanding a' = outstanding a \<Longrightarrow> sf a' c \<Longrightarrow> sf a c"
  unfolding sf_def by metis

lemma sf_thenCallback:
  assumes "\<And>s. sf s (f s)"
  shows "sf st (thenCallback k f (fetchPage p q a st))"
proof (cases "fetchInFlight st")
  case True
  then show ?thesis by (simp add: fetchPage_busy thenCallback_def assms)
next
  case False
  then show ?thesis by (simp add: fetchPage_idle thenCallback_def issue_def sf_def)
qed

lemma sf_thenCallback_ensure:
  assumes "\<And>s. sf s (f s)"
  shows "sf st (thenCallback k f (ensureDataForRange s t st))"
proof (cases "fetchInFlight st \<or> (min (t + 1) (totalCount st) \<le> int (length (allLoaded st)) \<or> totalCount st = 0)")
  case True
  then have "ensureDataForRange s t st = (st, None)"
    using ensure_busy ensure_covered by blast
  then show ?thesis by (simp add: thenCallback_def assms)
next
  case False
  then show ?thesis by (simp add: ensure_idle thenCallback_def issue_def sf_def)
qed

lemma sf_renderVirtualThen: "sf st (renderVirtualThen a b c d st)"
  by (rule sf_same) (simp_all add: renderVirtualThen_def Let_def)

lemma sf_renderSimple: "sf st (renderSimple e st)"
  by (rule sf_same) (simp_all add: renderSimple_def)

lemma sf_maybe: "sf st (maybeLoadMoreSimple e st)"
  unfolding maybeLoadMoreSimple_def
  by (simp add: sf_refl sf_thenCallback)

lemma renderVirtual_empty: "totalCount st \<le> 0 \<Longrightarrow> renderVirtual e st = st"
  by (simp add: renderVirtual_def)

lemma renderVirtual_unfold:
  "0 < totalCount st \<Longrightarrow>
   visibleWindow (totalCount st)
     (if theadHeight st = 0 then thead_offsetHeight e else theadHeight st) (scrollTop st)
     = (vs, ve, tp, bh) \<Longrightarrow>
   renderVirtual e st =
     thenCallback (ContVirtual vs ve (lastVisibleStart st = vs \<and> lastVisibleEnd st = ve) bh)
       (renderVirtualThen vs ve (lastVisibleStart st = vs \<and> lastVisibleEnd st = ve) bh)
       (ensureDataForRange vs ve
          (st\<lparr>theadHeight := (if theadHeight st = 0 then thead_offsetHeight e else theadHeight st),
              spacerHeight := tp, spacerShown := (tp > 0),
              lastVisibleStart := vs, lastVisibleEnd := ve\<rparr>))"
  by (simp add: renderVirtual_def Let_def)

lemma sf_renderVirtual: "sf st (renderVirtual e st)"
proof (cases "totalCount st \<le> 0")
  case True
  then show ?thesis by (simp add: renderVirtual_empty sf_refl)
next
  case False
  obtain vs ve tp bh where w: "visibleWindow (totalCount st) (if theadHeight st = 0 then thead_offsetHeight e else theadHeight st) (scrollTop st) = (vs, ve, tp, bh)"
    by (metis prod_cases4)
  from False have pos: "0 < totalCount st" by simp
  show ?thesis
    unfolding renderVirtual_unfold[OF pos w]
    by (rule sf_left[rotated 3], rule sf_thenCallback_ensure, rule sf_renderVirtualThen) simp_all
qed

lemma sf_reloadThen: "sf st (reloadThen e st)"
  unfolding reloadThen_def Let_def
  by (rule sf_left[where a'="st\<lparr>scrollTop := 0\<rparr>"]) (simp_all add: sf_maybe sf_renderVirtual)

lemma sf_reload: "sf st (reloadPeopleAndResetScroll e st)"
  unfolding reloadPeopleAndResetScroll_def
  by (rule sf_thenCallback) (rule sf_reloadThen)

lemma sf_runCont: "sf st (runCont k e st)"
  by (cases k) (simp_all add: sf_reloadThen sf_maybe sf_renderVirtualThen sf_refl)

lemma sf_step: "\<not> isSettle ev \<Longrightarrow> sf st (step e ev st)"
proof (cases ev)
  case (SearchInput v)
  show ?thesis unfolding SearchInput step.simps searchInput_def
    by (rule sf_left[rotated 3], rule sf_reload) simp_all
next
  case (ActiveOnlyChange b)
  show ?thesis unfolding ActiveOnlyChange step.simps activeOnlyChange_def
    by (rule sf_left[rotated 3], rule sf_reload) simp_all
next
  case (SortClick c ty)
  show ?thesis unfolding SortClick step.simps sortClick_def
    by (auto simp: sf_refl intro: sf_left[rotated 3, OF sf_reload])
next
  case (Scroll v)
  show ?thesis unfolding Scroll step.simps scrollTo_def Let_def
    by (rule sf_left[where a'="st\<lparr>scrollTop := v\<rparr>"]) (simp_all add: sf_maybe sf_renderVirtual)
next
  case (Settle r)
  assume "\<not> isSettle ev"
  with Settle show ?thesis by simp
qed

lemma sf_run: "\<forall>x \<in> set evs. \<not> isSettle (snd x) \<Longrightarrow> sf st (run evs st)"
proof (induction evs arbitrary: st)
  case Nil
  show ?case by (simp add: sf_refl)
next
  case (Cons x evs)
  obtain e ev where x: "x = (e, ev)" by (cases x)
  from Cons.prems have "\<not> isSettle ev" by (simp add: x)
  then have "sf st (step e ev st)" by (rule sf_step)
  moreover have "sf (step e ev st) (run evs (step e ev st))"
    using Cons by simp
  ultimately show ?case by (simp add: x sf_trans[of st "step e ev st"])
qed

lemma sf_sent:
  "sf st st' \<Longrightarrow> length (sent st') \<le> length (sent st) + 1 \<and>
     (fetchInFlight st \<longrightarrow> sent st' = sent st \<and> outstanding st' = outstanding st)"
  unfolding sf_def by (cases "fetchInFlight st") auto

lemma wf_sf: "wf a \<Longrightarrow> sf a b \<Longrightarrow> wf b"
  unfolding sf_def wf_def by (cases "fetchInFlight a") auto

lemma storePage_flags:
  "fetchInFlight (storePage a e people tot st) = False"
  "sent (storePage a e people tot st) = sent st"
  "outstanding (storePage a e people tot st) = outstanding st"
  "simpleScroll (storePage a e people tot st) = simpleScroll st"
  by (simp_all add: storePage_def Let_def)

lemma sf_fetchPageThen: "sf (st\<lparr>fetchInFlight := False\<rparr>) (fetchPageThen a e people tot st)"
proof -
  have "sf (storePage a e people tot st) (fetchPageThen a e people tot st)"
    by (simp add: fetchPageThen_def Let_def sf_renderSimple sf_renderVirtual)
  then show ?thesis
    by (rule sf_left[rotated 3]) (simp_all add: storePage_flags)
qed

lemma sf_fetchPageSettle: "sf (st\<lparr>fetchInFlight := False\<rparr>) (fetchPageSettle a e r st)"
proof (cases r)
  case Rejected
  then show ?thesis by (simp add: fetchPageSettle_cases fetchPageCatch_def sf_same)
next
  case JNull
  then show ?thesis by (simp add: fetchPageSettle_cases fetchPageCatch_def sf_same)
next
  case (JObj people tot)
  then show ?thesis by (simp add: fetchPageSettle_cases sf_fetchPageThen)
qed

lemma wf_settle: "wf st \<Longrightarrow> wf (settle e r st)"
proof (cases "outstanding st")
  case Nil
  assume "wf st"
  with Nil show ?thesis by (simp add: settle_def)
next
  case (Cons x rest)
  assume w: "wf st"
  obtain rq k where x: "x = (rq, k)" by (cases x)
  from w Cons have rest: "rest = []" by (simp add: wf_def)
  have "wf (st\<lparr>outstanding := [], fetchInFlight := False\<rparr>)"
    by (simp add: wf_def)
  then have "wf (fetchPageSettle (rq_append rq) e r (st\<lparr>outstanding := []\<rparr>))"
    using sf_fetchPageSettle wf_sf by blast
  then have "wf (runCont k e (fetchPageSettle (rq_append rq) e r (st\<lparr>outstanding := []\<rparr>)))"
    using sf_runCont wf_sf by blast
  then show ?thesis by (simp add: settle_def Cons x rest)
qed

lemma wf_step: "wf st \<Longrightarrow> wf (step e ev st)"
proof (cases "isSettle ev")
  case True
  assume "wf st"
  with True show ?thesis by (cases ev) (simp_all add: wf_settle)
next
  case False
  assume "wf st"
  with False show ?thesis using sf_step wf_sf by blast
qed

lemma wf_run: "wf st \<Longrightarrow> wf (run evs st)"
  by (induction evs arbitrary: st) (auto simp: wf_step)

lemma wf_pageLoad: "wf (pageLoad e n c d m)"
proof -
  have "wf (initTable n c d m :: 'a table)" by (simp add: wf_def initTable_def)
  moreover have "sf (initTable n c d m :: 'a table) (pageLoad e n c d m)"
    unfolding pageLoad_def by (rule sf_thenCallback) (rule sf_runCont)
  ultimately show ?thesis by (rule wf_sf)
qed

lemma ensureCalls_busy: "fetchInFlight st \<Longrightarrow> ensureCalls cs st = (st, [])"
  by (induction cs) (auto simp: ensure_busy)

lemma ensureCalls_le: "length (snd (ensureCalls cs st)) \<le> 1"
proof (induction cs arbitrary: st)
  case Nil
  show ?case by simp
next
  case (Cons c cs)
  obtain s t where c: "c = (s, t)" by (cases c)
  obtain st1 r where r: "ensureDataForRange s t st = (st1, r)"
    by (cases "ensureDataForRange s t st")
  show ?case
  proof (cases r)
    case None
    with r have "st1 = st" using ensure_None by blast
    with Cons.IH[of st] r None c show ?thesis by (simp split: prod.splits)
  next
    case (Some rq)
    with r have "fetchInFlight st1" using ensure_Some by blast
    then have "ensureCalls cs st1 = (st1, [])" by (rule ensureCalls_busy)
    with r Some c show ?thesis by simp
  qed
qed

text \<open>
  C2. Single flight. In a run of \<^verbatim>\<open>ensureDataForRange\<close> calls with nothing settling in
  between, at most one request leaves; a call made while \<^verbatim>\<open>fetchInFlight\<close> is set
  returns the resolved promise, changes nothing and sends nothing. The same holds for
  every run of handlers in which no request settles (scrolling, search input, the
  active-only box, sort clicks): the request log grows by at most one entry, and by none
  when a request was in flight at the start. From the page load on, the flag is set
  exactly while a request is outstanding, and at most one request is outstanding.
\<close>

theorem single_flight:
  "length (snd (ensureCalls cs st)) \<le> 1 \<and>
   (fetchInFlight st \<longrightarrow> ensureDataForRange s t st = (st, None) \<and> ensureCalls cs st = (st, [])) \<and>
   ((\<forall>x \<in> set evs. \<not> isSettle (snd x)) \<longrightarrow>
      length (sent (run evs st)) \<le> length (sent st) + 1 \<and>
      (fetchInFlight st \<longrightarrow> sent (run evs st) = sent st)) \<and>
   wf (run evs' (pageLoad e n c d m))"
proof (intro conjI impI)
  show "length (snd (ensureCalls cs st)) \<le> 1" by (rule ensureCalls_le)
next
  assume "fetchInFlight st"
  then show "ensureDataForRange s t st = (st, None)" by (rule ensure_busy)
next
  assume "fetchInFlight st"
  then show "ensureCalls cs st = (st, [])" by (rule ensureCalls_busy)
next
  assume "\<forall>x \<in> set evs. \<not> isSettle (snd x)"
  then have "sf st (run evs st)" by (rule sf_run)
  then show "length (sent (run evs st)) \<le> length (sent st) + 1"
    using sf_sent by blast
next
  assume "\<forall>x \<in> set evs. \<not> isSettle (snd x)" and "fetchInFlight st"
  then show "sent (run evs st) = sent st"
    using sf_run sf_sent by blast
next
  show "wf (run evs' (pageLoad e n c d m))"
    by (rule wf_run) (rule wf_pageLoad)
qed

theorem single_flight_witness:
  "length (snd (ensureCalls [(120, 180), (130, 190)] exVirtual)) \<le> 1 \<and>
   ensureCalls [(120, 180), (130, 190)] (exVirtual\<lparr>fetchInFlight := True\<rparr>)
     = (exVirtual\<lparr>fetchInFlight := True\<rparr>, []) \<and>
   length (sent (run [(exEnv, Scroll 4800), (exEnv, SearchInput ''bob'')] exVirtual)) \<le> 1 \<and>
   sent (run [(exEnv, Scroll 4800), (exEnv, SearchInput ''bob'')]
           (exVirtual\<lparr>fetchInFlight := True\<rparr>)) = []"
proof -
  let ?cs = "[(120, 180), (130, 190)] :: (int \<times> int) list"
  let ?evs = "[(exEnv, Scroll 4800), (exEnv, SearchInput ''bob'')] :: (env \<times> string event) list"
  let ?busy = "exVirtual\<lparr>fetchInFlight := True\<rparr>"
  note idle = single_flight [where cs = ?cs and st = exVirtual and evs = ?evs]
  note busy = single_flight [where cs = ?cs and st = ?busy and evs = ?evs]
  have f: "fetchInFlight ?busy" by simp
  have h: "\<forall>x \<in> set ?evs. \<not> isSettle (snd x)" by simp
  have 1: "length (snd (ensureCalls ?cs exVirtual)) \<le> 1"
    using idle by blast
  have 2: "ensureCalls ?cs ?busy = (?busy, [])"
    using busy f by blast
  have "length (sent (run ?evs exVirtual)) \<le> length (sent exVirtual) + 1"
    using idle h by blast
  then have 3: "length (sent (run ?evs exVirtual)) \<le> 1"
    by (simp add: exVirtual_fields)
  have "sent (run ?evs ?busy) = sent ?busy"
    using busy f h by blast
  then have 4: "sent (run ?evs ?busy) = []"
    by (simp add: exVirtual_fields)
  from 1 2 3 4 show ?thesis by blast
qed

subsection \<open>Fields that the handlers leave alone\<close>

lemma core_fetchPage: "core (fst (fetchPage p s a st)) = core st"
  by (simp add: fetchPage_def core_def)
lemma geometry_fetchPage: "geometry (fst (fetchPage p s a st)) = geometry st"
  by (simp add: fetchPage_def geometry_def)
lemma shown_fetchPage: "shown (fst (fetchPage p s a st)) = shown st"
  by (simp add: fetchPage_def shown_def)

lemma core_ensure: "core (fst (ensureDataForRange s t st)) = core st"
  by (simp add: ensureDataForRange_def Let_def core_fetchPage)
lemma geometry_ensure: "geometry (fst (ensureDataForRange s t st)) = geometry st"
  by (simp add: ensureDataForRange_def Let_def geometry_fetchPage)
lemma shown_ensure: "shown (fst (ensureDataForRange s t st)) = shown st"
  by (simp add: ensureDataForRange_def Let_def shown_fetchPage)

lemma core_issue: "core (issue rq k st) = core st"
  by (simp add: issue_def core_def)
lemma geometry_issue: "geometry (issue rq k st) = geometry st"
  by (simp add: issue_def geometry_def)
lemma shown_issue: "shown (issue rq k st) = shown st"
  by (simp add: issue_def shown_def)

lemma thenCallback_proj:
  assumes "\<And>s. g (f s) = g s" and "\<And>s rq. g (issue rq k s) = g s"
  shows "g (thenCallback k f r) = g (fst r)"
  by (cases r; cases "snd r") (auto simp: thenCallback_def assms)

lemma core_renderVirtualThen: "core (renderVirtualThen a b c d st) = core st"
  by (simp add: renderVirtualThen_def Let_def core_def)
lemma geometry_renderVirtualThen: "geometry (renderVirtualThen a b c d st) = geometry st"
  by (simp add: renderVirtualThen_def Let_def geometry_def)

lemma core_renderSimple: "core (renderSimple e st) = core st"
  by (simp add: renderSimple_def core_def)

lemma core_maybe: "core (maybeLoadMoreSimple e st) = core st"
  by (simp add: maybeLoadMoreSimple_def thenCallback_proj core_issue core_fetchPage)
lemma geometry_maybe: "geometry (maybeLoadMoreSimple e st) = geometry st"
  by (simp add: maybeLoadMoreSimple_def thenCallback_proj geometry_issue geometry_fetchPage)
lemma shown_maybe: "shown (maybeLoadMoreSimple e st) = shown st"
  by (simp add: maybeLoadMoreSimple_def thenCallback_proj shown_issue shown_fetchPage)

subsection \<open>The visible window\<close>

lemma window_eq:
  assumes pos: "0 < totalC"
  shows "visibleWindow totalC th sc =
     (let n = \<lfloor>max 0 (sc - real_of_int th) / real_of_int ROW_HEIGHT\<rfloor>;
          vs = (if n < totalC then n else max 0 (totalC - VISIBLE_ROWS));
          ve = min totalC (vs + VISIBLE_ROWS)
      in (vs, ve, vs * ROW_HEIGHT, max 0 ((totalC - ve) * ROW_HEIGHT)))"
proof -
  define n where "n = \<lfloor>max 0 (sc - real_of_int th) / real_of_int ROW_HEIGHT\<rfloor>"
  have n0: "0 \<le> n"
    unfolding n_def ROW_HEIGHT_def by simp
  then have mx: "max 0 n = n" by simp
  show ?thesis
  proof (cases "n < totalC")
    case True
    then have a: "\<not> totalC \<le> n" by simp
    have b: "\<not> min totalC (n + VISIBLE_ROWS) \<le> n"
      using True by (simp add: VISIBLE_ROWS_def)
    show ?thesis
      unfolding visibleWindow_def n_def[symmetric] Let_def mx
      using True a b by simp
  next
    case False
    then have a: "totalC \<le> n" by simp
    have c: "min totalC (n + VISIBLE_ROWS) = totalC"
      using a by (simp add: VISIBLE_ROWS_def)
    have b: "\<not> totalC \<le> max 0 (totalC - VISIBLE_ROWS)"
      using pos by (simp add: VISIBLE_ROWS_def)
    have d: "min totalC (max 0 (totalC - VISIBLE_ROWS) + VISIBLE_ROWS) = totalC"
      by (simp add: VISIBLE_ROWS_def)
    show ?thesis
      unfolding visibleWindow_def n_def[symmetric] Let_def mx
      using False a b c d by simp
  qed
qed

lemma window_bounds:
  assumes pos: "0 < totalC" and w: "visibleWindow totalC th sc = (vs, ve, tp, bh)"
  shows "0 \<le> vs \<and> vs < ve \<and> ve \<le> totalC \<and> ve - vs \<le> VISIBLE_ROWS"
proof -
  define n where "n = \<lfloor>max 0 (sc - real_of_int th) / real_of_int ROW_HEIGHT\<rfloor>"
  have n0: "0 \<le> n"
    unfolding n_def ROW_HEIGHT_def by simp
  have "(vs, ve, tp, bh) =
     (let vs = (if n < totalC then n else max 0 (totalC - VISIBLE_ROWS));
          ve = min totalC (vs + VISIBLE_ROWS)
      in (vs, ve, vs * ROW_HEIGHT, max 0 ((totalC - ve) * ROW_HEIGHT)))"
    using window_eq[OF pos, of th sc] unfolding w n_def Let_def by simp
  then have vs: "vs = (if n < totalC then n else max 0 (totalC - VISIBLE_ROWS))"
    and ve: "ve = min totalC (vs + VISIBLE_ROWS)"
    by (simp_all add: Let_def)
  from vs n0 have 1: "0 \<le> vs" by (simp split: if_splits)
  from vs pos have 2: "vs < totalC" by (simp add: VISIBLE_ROWS_def split: if_splits)
  from ve 2 have 3: "vs < ve" by (simp add: VISIBLE_ROWS_def)
  from ve have 4: "ve \<le> totalC" and 5: "ve - vs \<le> VISIBLE_ROWS" by simp_all
  from 1 3 4 5 show ?thesis by simp
qed

lemma geometry_renderVirtual:
  assumes pos: "0 < totalCount st"
    and w: "visibleWindow (totalCount st)
              (if theadHeight st = 0 then thead_offsetHeight e else theadHeight st) (scrollTop st)
            = (vs, ve, tp, bh)"
  shows "geometry (renderVirtual e st) = (scrollTop st, vs, ve, tp, tp > 0)"
  unfolding renderVirtual_unfold[OF pos w]
  by (simp add: thenCallback_proj geometry_renderVirtualThen geometry_issue geometry_ensure)
     (simp add: geometry_def)

text \<open>
  C3. Window clamp. For every positive total, every header height and every scroll offset,
  also one past the end of the list, the window of \<^verbatim>\<open>renderVirtual\<close> has
  visibleStart < visibleEnd and at most \<^verbatim>\<open>VISIBLE_ROWS\<close> = 60 rows, and lies inside the
  list; these are the values that \<^verbatim>\<open>renderVirtual\<close> stores in \<^verbatim>\<open>lastVisibleStart\<close> and
  \<^verbatim>\<open>lastVisibleEnd\<close>.
\<close>

theorem window_clamp:
  "0 < totalCount st \<Longrightarrow>
   (case visibleWindow (totalCount st) th sc of
      (vs, ve, tp, bh) \<Rightarrow> vs < ve \<and> ve - vs \<le> VISIBLE_ROWS \<and> 0 \<le> vs \<and> ve \<le> totalCount st) \<and>
   lastVisibleStart (renderVirtual e st) < lastVisibleEnd (renderVirtual e st) \<and>
   lastVisibleEnd (renderVirtual e st) - lastVisibleStart (renderVirtual e st) \<le> VISIBLE_ROWS \<and>
   VISIBLE_ROWS = 60"
proof -
  assume pos: "0 < totalCount st"
  obtain vs ve tp bh where w: "visibleWindow (totalCount st) th sc = (vs, ve, tp, bh)"
    by (metis prod_cases4)
  obtain vs' ve' tp' bh' where w': "visibleWindow (totalCount st)
              (if theadHeight st = 0 then thead_offsetHeight e else theadHeight st) (scrollTop st)
            = (vs', ve', tp', bh')"
    by (metis prod_cases4)
  have g: "geometry (renderVirtual e st) = (scrollTop st, vs', ve', tp', tp' > 0)"
    by (rule geometry_renderVirtual[OF pos w'])
  then have l: "lastVisibleStart (renderVirtual e st) = vs'"
    "lastVisibleEnd (renderVirtual e st) = ve'"
    by (simp_all add: geometry_def)
  show ?thesis
    using window_bounds[OF pos w] window_bounds[OF pos w'] w l
    by (simp add: VISIBLE_ROWS_def)
qed

theorem window_clamp_witness:
  "visibleWindow 250 0 1000000 = (190, 250, 7600, 0) \<and>
   lastVisibleStart (renderVirtual exEnv (exVirtual\<lparr>scrollTop := 1000000\<rparr>)) = 190 \<and>
   lastVisibleEnd (renderVirtual exEnv (exVirtual\<lparr>scrollTop := 1000000\<rparr>)) = 250 \<and>
   (190::int) < 250 \<and> (250::int) - 190 \<le> 60"
proof -
  have w: "visibleWindow 250 0 1000000 = (190, 250, 7600, 0)"
    by (simp add: visibleWindow_def Let_def ROW_HEIGHT_def VISIBLE_ROWS_def)
  have t: "totalCount (exVirtual\<lparr>scrollTop := 1000000\<rparr>) = 250"
    "theadHeight (exVirtual\<lparr>scrollTop := 1000000\<rparr>) = 0"
    by (simp_all add: exVirtual_def initTable_def)
  have g: "geometry (renderVirtual exEnv (exVirtual\<lparr>scrollTop := 1000000\<rparr>))
           = (1000000, 190, 250, 7600, True)"
    using geometry_renderVirtual[of "exVirtual\<lparr>scrollTop := 1000000\<rparr>" exEnv 190 250 7600 0]
    by (simp add: t w exEnv_def)
  show ?thesis
    using window_clamp [of "exVirtual\<lparr>scrollTop := 1000000\<rparr>" 0 1000000 exEnv] g w
    by (simp add: t geometry_def)
qed

subsection \<open>Rows after a window recomputation\<close>

lemma renderVirtualThen_skip:
  "min (ve - vs) (int (length (allLoaded st)) - vs) \<le> 0 \<Longrightarrow> 0 < totalCount st \<Longrightarrow>
   renderVirtualThen vs ve ru bh st = st"
  by (simp add: renderVirtualThen_def Let_def)

lemma renderVirtualThen_rows:
  assumes "0 < totalCount st" and "0 \<le> vs" and "tbodyRows st \<noteq> []"
  shows "tbodyRows (renderVirtualThen vs ve ru bh st) \<noteq> []"
proof (cases "min (ve - vs) (int (length (allLoaded st)) - vs) \<le> 0")
  case True
  then show ?thesis using assms by (simp add: renderVirtualThen_skip)
next
  case False
  then have a: "0 < ve - vs" and b: "0 < int (length (allLoaded st)) - vs" by simp_all
  have "0 < min ve (int (length (allLoaded st))) - vs" using a b by simp
  moreover have "nat vs < length (allLoaded st)" using b assms(2) by simp
  ultimately have "take (nat (min ve (int (length (allLoaded st))) - vs))
                     (drop (nat vs) (allLoaded st)) \<noteq> []"
    by (simp add: min_def)
  then show ?thesis
    using assms(3) by (simp add: renderVirtualThen_def Let_def)
qed

lemma renderVirtual_rows:
  assumes pos: "0 < totalCount st" and rows: "tbodyRows st \<noteq> []"
  shows "tbodyRows (renderVirtual e st) \<noteq> []"
proof -
  obtain vs ve tp bh where w: "visibleWindow (totalCount st)
              (if theadHeight st = 0 then thead_offsetHeight e else theadHeight st) (scrollTop st)
            = (vs, ve, tp, bh)"
    by (metis prod_cases4)
  have vs: "0 \<le> vs" using window_bounds[OF pos w] by simp
  let ?st1 = "st\<lparr>theadHeight := (if theadHeight st = 0 then thead_offsetHeight e else theadHeight st),
              spacerHeight := tp, spacerShown := (tp > 0),
              lastVisibleStart := vs, lastVisibleEnd := ve\<rparr>"
  obtain st2 r where r: "ensureDataForRange vs ve ?st1 = (st2, r)"
    by (cases "ensureDataForRange vs ve ?st1")
  have "shown st2 = shown ?st1" using shown_ensure[of vs ve ?st1] r by simp
  then have rows2: "tbodyRows st2 \<noteq> []" using rows by (simp add: shown_def)
  have "core st2 = core ?st1" using core_ensure[of vs ve ?st1] r by simp
  then have pos2: "0 < totalCount st2" using pos by (simp add: core_def)
  show ?thesis
  proof (cases r)
    case None
    then show ?thesis
      unfolding renderVirtual_unfold[OF pos w] r thenCallback_def
      using renderVirtualThen_rows[OF pos2 vs rows2] by simp
  next
    case (Some rq)
    then show ?thesis
      unfolding renderVirtual_unfold[OF pos w] r thenCallback_def
      using rows2 by (simp add: issue_def)
  qed
qed

lemma scrollTo_rows:
  assumes "\<not> simpleScroll st" and "tbodyRows st \<noteq> []"
  shows "tbodyRows (scrollTo v e st) \<noteq> []"
proof (cases "totalCount st \<le> 0")
  case True
  then show ?thesis using assms by (simp add: scrollTo_def Let_def renderVirtual_empty)
next
  case False
  then have "tbodyRows (renderVirtual e (st\<lparr>scrollTop := v\<rparr>)) \<noteq> []"
    using assms(2) by (intro renderVirtual_rows) simp_all
  then show ?thesis using assms(1) by (simp add: scrollTo_def Let_def)
qed

text \<open>
  C10. In virtual mode, when the callback of \<^verbatim>\<open>renderVirtual\<close> computes a row count of
  0 or less while \<^verbatim>\<open>totalCount\<close> is positive, it returns at once and the whole state,
  the displayed rows included, is as before. With a positive total, neither the callback
  (for a visibleStart that is not negative, as \<^verbatim>\<open>renderVirtual\<close> always passes) nor
  \<^verbatim>\<open>renderVirtual\<close> as a whole ever replaces displayed rows by none; and a scroll event
  in virtual mode never does, whatever the total.
\<close>

theorem renderVirtual_keeps_rows:
  "(min (ve - vs) (int (length (allLoaded st)) - vs) \<le> 0 \<and> 0 < totalCount st
      \<longrightarrow> renderVirtualThen vs ve ru bh st = st) \<and>
   (0 < totalCount st \<and> 0 \<le> vs \<and> tbodyRows st \<noteq> []
      \<longrightarrow> tbodyRows (renderVirtualThen vs ve ru bh st) \<noteq> []) \<and>
   (0 < totalCount st \<and> tbodyRows st \<noteq> []
      \<longrightarrow> tbodyRows (renderVirtual e st) \<noteq> []) \<and>
   (\<not> simpleScroll st \<and> tbodyRows st \<noteq> []
      \<longrightarrow> tbodyRows (scrollTo v e st) \<noteq> [])"
proof (intro conjI impI)
  assume "min (ve - vs) (int (length (allLoaded st)) - vs) \<le> 0 \<and> 0 < totalCount st"
  then show "renderVirtualThen vs ve ru bh st = st"
    by (simp add: renderVirtualThen_skip)
next
  assume "0 < totalCount st \<and> 0 \<le> vs \<and> tbodyRows st \<noteq> []"
  then show "tbodyRows (renderVirtualThen vs ve ru bh st) \<noteq> []"
    by (simp add: renderVirtualThen_rows)
next
  assume "0 < totalCount st \<and> tbodyRows st \<noteq> []"
  then show "tbodyRows (renderVirtual e st) \<noteq> []"
    by (simp add: renderVirtual_rows)
next
  assume "\<not> simpleScroll st \<and> tbodyRows st \<noteq> []"
  then show "tbodyRows (scrollTo v e st) \<noteq> []"
    by (simp add: scrollTo_rows)
qed

theorem renderVirtual_keeps_rows_witness:
  "renderVirtualThen 120 180 False 2800 (exVirtual\<lparr>tbodyRows := [''alice'']\<rparr>)
     = exVirtual\<lparr>tbodyRows := [''alice'']\<rparr> \<and>
   tbodyRows (renderVirtualThen 10 70 False 7200 (exVirtual\<lparr>tbodyRows := [''alice'']\<rparr>)) \<noteq> [] \<and>
   tbodyRows (renderVirtual exEnv (exVirtual\<lparr>tbodyRows := [''alice'']\<rparr>)) \<noteq> [] \<and>
   tbodyRows (scrollTo 4800 exEnv (exVirtual\<lparr>tbodyRows := [''alice'']\<rparr>)) \<noteq> []"
proof -
  let ?st = "exVirtual\<lparr>tbodyRows := [''alice'']\<rparr>"
  have t: "totalCount ?st = 250" "length (allLoaded ?st) = 100" "tbodyRows ?st \<noteq> []"
    by (simp_all add: exVirtual_fields length_exVirtual)
  have a: "min (180 - 120) (int (length (allLoaded ?st)) - 120) \<le> 0 \<and> 0 < totalCount ?st"
    by (simp add: exVirtual_fields length_exVirtual)
  have b: "0 < totalCount ?st \<and> (0::int) \<le> 10 \<and> tbodyRows ?st \<noteq> []"
    by (simp add: t)
  have c: "0 < totalCount ?st \<and> tbodyRows ?st \<noteq> []"
    by (simp add: t)
  note k = renderVirtual_keeps_rows [where st = ?st and e = exEnv and ru = False]
  have 1: "renderVirtualThen 120 180 False 2800 ?st = ?st"
    using k [where vs = 120 and ve = 180 and bh = 2800] a by blast
  have 2: "tbodyRows (renderVirtualThen 10 70 False 7200 ?st) \<noteq> []"
    using k [where vs = 10 and ve = 70 and bh = 7200] b by blast
  have 3: "tbodyRows (renderVirtual exEnv ?st) \<noteq> []"
    using k [where vs = 10 and ve = 70 and bh = 7200] c by blast
  have d: "\<not> simpleScroll ?st \<and> tbodyRows ?st \<noteq> []"
    by (simp add: exVirtual_fields)
  have 4: "tbodyRows (scrollTo 4800 exEnv ?st) \<noteq> []"
    using k [where vs = 10 and ve = 70 and bh = 7200 and v = 4800] d by blast
  from 1 2 3 4 show ?thesis by blast
qed

subsection \<open>A request that fails\<close>

lemma core_renderVirtual: "core (renderVirtual e st) = core st"
proof (cases "totalCount st \<le> 0")
  case True
  then show ?thesis by (simp add: renderVirtual_empty)
next
  case False
  obtain vs ve tp bh where w: "visibleWindow (totalCount st)
              (if theadHeight st = 0 then thead_offsetHeight e else theadHeight st) (scrollTop st)
            = (vs, ve, tp, bh)"
    by (metis prod_cases4)
  from False have pos: "0 < totalCount st" by simp
  show ?thesis
    unfolding renderVirtual_unfold[OF pos w]
    by (simp add: thenCallback_proj core_renderVirtualThen core_issue core_ensure)
       (simp add: core_def)
qed

lemma core_reloadThen: "core (reloadThen e st) = core st"
  by (simp add: reloadThen_def Let_def core_maybe core_renderVirtual) (simp add: core_def)

lemma core_runCont: "core (runCont k e st) = core st"
  by (cases k) (simp_all add: core_reloadThen core_maybe core_renderVirtualThen)

lemma core_reload: "core (reloadPeopleAndResetScroll e st) = core st"
  by (simp add: reloadPeopleAndResetScroll_def thenCallback_proj core_reloadThen core_issue
        core_fetchPage)

lemma fetchPageSettle_Rejected:
  "core (fetchPageSettle a e Rejected st) = core st"
  "\<not> fetchInFlight (fetchPageSettle a e Rejected st)"
  by (simp_all add: fetchPageSettle_cases fetchPageCatch_def core_def)

lemma fetchPageSettle_failed_append:
  "failed r \<Longrightarrow> fetchPageSettle True e r st = fetchPageCatch st"
  by (cases r) (simp_all add: fetchPageSettle_cases)

lemma core_fetchPageCatch: "core (fetchPageCatch st) = core st"
  by (simp add: fetchPageCatch_def core_def)

lemma ensure_same_request:
  assumes r: "ensureDataForRange s t st = (st1, Some rq)"
    and c: "core st2 = core st" and f: "\<not> fetchInFlight st2"
  shows "ensureDataForRange s t st2 = (st2\<lparr>fetchInFlight := True\<rparr>, Some rq)"
proof -
  have idle: "\<not> fetchInFlight st" using r ensure_Some by blast
  have unmet: "\<not> (min (t + 1) (totalCount st) \<le> int (length (allLoaded st)) \<or> totalCount st = 0)"
    using r ensure_covered[of t st s] by auto
  have eqs: "allLoaded st2 = allLoaded st" "totalCount st2 = totalCount st"
    "currentSearch st2 = currentSearch st" "currentActiveOnly st2 = currentActiveOnly st"
    "sortCol st2 = sortCol st" "sortDir st2 = sortDir st"
    using c by (simp_all add: core_def)
  have unmet2: "\<not> (min (t + 1) (totalCount st2) \<le> int (length (allLoaded st2)) \<or> totalCount st2 = 0)"
    using unmet by (simp add: eqs)
  show ?thesis
    using r unfolding ensure_idle[OF idle unmet] ensure_idle[OF f unmet2]
    by (simp add: eqs)
qed

lemma ex_ensure:
  "ensureDataForRange 120 180 exVirtual = (exVirtual\<lparr>fetchInFlight := True\<rparr>, Some exPage2)"
proof -
  have "\<not> (min (180 + 1) (totalCount exVirtual) \<le> int (length (allLoaded exVirtual))
           \<or> totalCount exVirtual = 0)"
    by (simp add: exVirtual_fields length_exVirtual)
  then show ?thesis
    using ensure_idle[of exVirtual 180 120]
    by (simp add: exVirtual_fields length_exVirtual exPage2_def PER_PAGE_def)
       (simp add: exVirtual_def initTable_def)
qed

subsection \<open>Evaluating the example states\<close>

lemmas simple_defs =
  pageLoad_def initTable_def fetchPage_def thenCallback_def issue_def settle_def
  fetchPageSettle_cases fetchPageThen_def fetchPageCatch_def storePage_def renderSimple_def
  maybeLoadMoreSimple_def searchInput_def reloadPeopleAndResetScroll_def reloadThen_def
  trim_def isWhite_def Let_def PER_PAGE_def ROW_HEIGHT_def thresholdPx_def

lemma renderVirtual_covered:
  assumes "0 < totalCount st"
    and "visibleWindow (totalCount st)
           (if theadHeight st = 0 then thead_offsetHeight e else theadHeight st) (scrollTop st)
         = (vs, ve, tp, bh)"
    and "min (ve + 1) (totalCount st) \<le> int (length (allLoaded st)) \<or> fetchInFlight st"
  shows "renderVirtual e st =
     renderVirtualThen vs ve (lastVisibleStart st = vs \<and> lastVisibleEnd st = ve) bh
       (st\<lparr>theadHeight := (if theadHeight st = 0 then thead_offsetHeight e else theadHeight st),
           spacerHeight := tp, spacerShown := (tp > 0),
           lastVisibleStart := vs, lastVisibleEnd := ve\<rparr>)"
proof -
  let ?st1 = "st\<lparr>theadHeight := (if theadHeight st = 0 then thead_offsetHeight e else theadHeight st),
           spacerHeight := tp, spacerShown := (tp > 0),
           lastVisibleStart := vs, lastVisibleEnd := ve\<rparr>"
  have "ensureDataForRange vs ve ?st1 = (?st1, None)"
    using assms(3) ensure_busy[of ?st1 vs ve] ensure_covered[of ve ?st1 vs] by auto
  then show ?thesis
    unfolding renderVirtual_unfold[OF assms(1,2)] by (simp add: thenCallback_def)
qed

lemma renderVirtual_request:
  assumes "0 < totalCount st"
    and "visibleWindow (totalCount st)
           (if theadHeight st = 0 then thead_offsetHeight e else theadHeight st) (scrollTop st)
         = (vs, ve, tp, bh)"
    and "\<not> min (ve + 1) (totalCount st) \<le> int (length (allLoaded st))" and "\<not> fetchInFlight st"
  shows "renderVirtual e st =
     issue \<lparr>rq_page = int (length (allLoaded st)) div PER_PAGE + 1, rq_per_page = PER_PAGE,
            rq_search = currentSearch st,
            rq_active_only = currentActiveOnly st, rq_sort_col = sortCol st,
            rq_sort_dir = sortDir st, rq_append = True\<rparr>
       (ContVirtual vs ve (lastVisibleStart st = vs \<and> lastVisibleEnd st = ve) bh)
       (st\<lparr>theadHeight := (if theadHeight st = 0 then thead_offsetHeight e else theadHeight st),
           spacerHeight := tp, spacerShown := (tp > 0),
           lastVisibleStart := vs, lastVisibleEnd := ve, fetchInFlight := True\<rparr>)"
proof -
  let ?st1 = "st\<lparr>theadHeight := (if theadHeight st = 0 then thead_offsetHeight e else theadHeight st),
           spacerHeight := tp, spacerShown := (tp > 0),
           lastVisibleStart := vs, lastVisibleEnd := ve\<rparr>"
  have a: "\<not> fetchInFlight ?st1" using assms(4) by simp
  have b: "\<not> (min (ve + 1) (totalCount ?st1) \<le> int (length (allLoaded ?st1)) \<or> totalCount ?st1 = 0)"
    using assms(1,3) by simp
  show ?thesis
    unfolding renderVirtual_unfold[OF assms(1,2)] ensure_idle[OF a b]
    by (simp add: thenCallback_def)
qed

lemma windows:
  "visibleWindow 250 0 0 = (0, 60, 0, 7600)"
  "visibleWindow 250 0 400 = (10, 70, 400, 7200)"
  "visibleWindow 250 0 4800 = (120, 180, 4800, 2800)"
  "visibleWindow 10 0 4000 = (0, 10, 0, 0)"
  by (simp_all add: visibleWindow_def Let_def ROW_HEIGHT_def VISIBLE_ROWS_def)

lemma exVirtual_more:
  "theadHeight exVirtual = 0" "scrollTop exVirtual = 0" "lastVisibleStart exVirtual = - 1"
  "lastVisibleEnd exVirtual = - 1" "allLoaded exVirtual = replicate 100 ''alice''"
  "sortCol exVirtual = ''count''" "sortDir exVirtual = ''desc''" "\<not> currentActiveOnly exVirtual"
  "tbodyRows exVirtual = []" "bottomSpacer exVirtual = None"
  by (simp_all add: exVirtual_def initTable_def)

lemma exScrolled_eq:
  "exScrolled = exVirtual\<lparr>scrollTop := 400, spacerHeight := 400, spacerShown := True,
      lastVisibleStart := 10, lastVisibleEnd := 70, tbodyRows := replicate 60 ''alice'',
      bottomSpacer := Some (7200, True)\<rparr>"
proof -
  let ?st = "exVirtual\<lparr>scrollTop := 400\<rparr>"
  have "renderVirtual exEnv ?st =
     renderVirtualThen 10 70 (lastVisibleStart ?st = 10 \<and> lastVisibleEnd ?st = 70) 7200
       (?st\<lparr>theadHeight := (if theadHeight ?st = 0 then thead_offsetHeight exEnv else theadHeight ?st),
           spacerHeight := 400, spacerShown := (400 > (0::int)),
           lastVisibleStart := 10, lastVisibleEnd := 70\<rparr>)"
    by (rule renderVirtual_covered)
       (simp_all add: exVirtual_more exVirtual_fields length_exVirtual windows exEnv_def)
  then show ?thesis
    unfolding exScrolled_def scrollTo_def Let_def
    by (simp add: exVirtual_fields exVirtual_more renderVirtualThen_def Let_def exEnv_def)
qed

lemma exQueryChanged_eq:
  "exQueryChanged =
     exScrolled\<lparr>currentSearch := ''bob'', fetchInFlight := True, loadingShown := True,
       sent := [\<lparr>rq_page = 1, rq_per_page = 100, rq_search = ''bob'', rq_active_only = False,
                 rq_sort_col = ''count'', rq_sort_dir = ''desc'', rq_append = False\<rparr>],
       outstanding := [(\<lparr>rq_page = 1, rq_per_page = 100, rq_search = ''bob'',
                 rq_active_only = False,
                 rq_sort_col = ''count'', rq_sort_dir = ''desc'', rq_append = False\<rparr>, ContReload)]\<rparr>"
  unfolding exQueryChanged_def exScrolled_eq
  by (simp add: simple_defs exVirtual_fields exVirtual_more)

lemma exEmptied_eq:
  "exEmptied =
     exScrolled\<lparr>currentSearch := ''zzz'', allLoaded := [], totalCount := 0, scrollTop := 0,
       lastVisibleStart := - 1, lastVisibleEnd := - 1,
       sent := [\<lparr>rq_page = 1, rq_per_page = 100, rq_search = ''zzz'', rq_active_only = False,
                 rq_sort_col = ''count'', rq_sort_dir = ''desc'', rq_append = False\<rparr>]\<rparr>"
  unfolding exEmptied_def exNoMatch_def exScrolled_eq
  by (simp add: simple_defs exVirtual_fields exVirtual_more renderVirtual_empty)
     (simp add: exVirtual_def initTable_def)

subsection \<open>An empty result\<close>

lemma maybeLoadMoreSimple_done:
  "totalCount st \<le> int (length (allLoaded st)) \<Longrightarrow> maybeLoadMoreSimple e st = st"
  by (simp add: maybeLoadMoreSimple_def)

lemma storePage_empty:
  "storePage False e (Some []) (Some 0) st =
     st\<lparr>allLoaded := [], totalCount := 0, fetchInFlight := False, loadingShown := False,
        lastVisibleStart := - 1, lastVisibleEnd := - 1\<rparr>"
  by (simp add: storePage_def Let_def)

lemma fetchPageThen_simple:
  "simpleScroll st \<Longrightarrow>
   fetchPageThen app e people tot st = renderSimple e (storePage app e people tot st)"
  by (simp add: fetchPageThen_def Let_def storePage_flags)

lemma runCont_simple:
  assumes "simpleScroll st" and "k \<in> {ContReload, ContSimpleMore, ContInitial}"
  shows "runCont k e st = maybeLoadMoreSimple e st
         \<or> runCont k e st = maybeLoadMoreSimple e (st\<lparr>scrollTop := 0\<rparr>)"
  using assms by (auto simp add: reloadThen_def Let_def)

lemma settle_simple_rows:
  assumes o: "outstanding st = (rq, k) # rest" and m: "simpleScroll st"
    and k: "k \<in> {ContReload, ContSimpleMore, ContInitial}"
  shows "tbodyRows (settle e (JObj people tot) st) = allLoaded (settle e (JObj people tot) st)"
    and "spacerHeight (settle e (JObj people tot) st) = 0"
    and "bottomSpacer (settle e (JObj people tot) st) = None"
proof -
  let ?s1 = "fetchPageThen (rq_append rq) e people tot (st\<lparr>outstanding := rest\<rparr>)"
  have s: "settle e (JObj people tot) st = runCont k e ?s1"
    using o by (simp add: settle_def fetchPageSettle_cases)
  have m1: "simpleScroll (st\<lparr>outstanding := rest\<rparr>)" using m by simp
  have eq: "?s1 = renderSimple e (storePage (rq_append rq) e people tot (st\<lparr>outstanding := rest\<rparr>))"
    using m1 by (rule fetchPageThen_simple)
  have r: "tbodyRows ?s1 = allLoaded ?s1" "spacerHeight ?s1 = 0" "bottomSpacer ?s1 = None"
    "simpleScroll ?s1"
    unfolding eq using m by (simp_all add: renderSimple_def storePage_flags)
  have keep: "tbodyRows (maybeLoadMoreSimple e s) = tbodyRows s \<and>
              bottomSpacer (maybeLoadMoreSimple e s) = bottomSpacer s \<and>
              spacerHeight (maybeLoadMoreSimple e s) = spacerHeight s \<and>
              allLoaded (maybeLoadMoreSimple e s) = allLoaded s" for s :: "'a table"
    using shown_maybe[of e s] geometry_maybe[of e s] core_maybe[of e s]
    by (simp add: shown_def geometry_def core_def)
  from runCont_simple[OF r(4) k, of e]
  have "tbodyRows (runCont k e ?s1) = tbodyRows ?s1 \<and>
        bottomSpacer (runCont k e ?s1) = bottomSpacer ?s1 \<and>
        spacerHeight (runCont k e ?s1) = spacerHeight ?s1 \<and>
        allLoaded (runCont k e ?s1) = allLoaded ?s1"
  proof
    assume a: "runCont k e ?s1 = maybeLoadMoreSimple e ?s1"
    show ?thesis unfolding a by (rule keep)
  next
    assume a: "runCont k e ?s1 = maybeLoadMoreSimple e (?s1\<lparr>scrollTop := 0\<rparr>)"
    show ?thesis unfolding a using keep[of "?s1\<lparr>scrollTop := 0\<rparr>"] by simp
  qed
  then show "tbodyRows (settle e (JObj people tot) st) = allLoaded (settle e (JObj people tot) st)"
    and "spacerHeight (settle e (JObj people tot) st) = 0"
    and "bottomSpacer (settle e (JObj people tot) st) = None"
    unfolding s using r by simp_all
qed

lemma pageLoad_sent:
  "sent (pageLoad e n c d m :: 'p table) =
     [\<lparr>rq_page = 1, rq_per_page = PER_PAGE, rq_search = '''', rq_active_only = False,
       rq_sort_col = sortCol (initTable n c d m :: 'p table),
       rq_sort_dir = sortDir (initTable n c d m :: 'p table), rq_append = False\<rparr>]"
  by (simp add: pageLoad_def fetchPage_def thenCallback_def issue_def initTable_def)

text \<open>
  C8, as the code has it. With \<^verbatim>\<open>totalCount\<close> = 0, \<^verbatim>\<open>ensureDataForRange\<close>,
  \<^verbatim>\<open>maybeLoadMoreSimple\<close> and \<^verbatim>\<open>renderVirtual\<close> send no request. In simple mode every
  answer that is a JSON object is rendered as the loaded list, with the top spacer at
  height 0 and no bottom spacer, and this is still so once the callback chained on the
  request has run; so after the answer "no people, total 0" to a reload request the table
  body is empty, the total is 0 and \<^verbatim>\<open>maybeLoadMoreSimple\<close> sends nothing. Page 1 is
  requested at page load, whatever the initial total is, and by
  \<^verbatim>\<open>reloadPeopleAndResetScroll\<close>, which every query change calls, while no request is
  in flight, whatever the total is.
\<close>

theorem empty_total:
  "(totalCount st = 0 \<longrightarrow>
      ensureDataForRange s t st = (st, None) \<and>
      maybeLoadMoreSimple e st = st \<and>
      sent (renderVirtual e st) = sent st \<and>
      outstanding (renderVirtual e st) = outstanding st) \<and>
   (simpleScroll st \<longrightarrow>
      tbodyRows (fetchPageThen app e people tot st)
        = allLoaded (fetchPageThen app e people tot st) \<and>
      spacerHeight (fetchPageThen app e people tot st) = 0 \<and>
      \<not> spacerShown (fetchPageThen app e people tot st) \<and>
      bottomSpacer (fetchPageThen app e people tot st) = None) \<and>
   (outstanding st = (rq, k) # rest \<and> simpleScroll st \<and>
      k \<in> {ContReload, ContSimpleMore, ContInitial} \<longrightarrow>
      tbodyRows (settle e (JObj people tot) st) = allLoaded (settle e (JObj people tot) st) \<and>
      spacerHeight (settle e (JObj people tot) st) = 0 \<and>
      bottomSpacer (settle e (JObj people tot) st) = None) \<and>
   (simpleScroll st \<longrightarrow>
      tbodyRows (fetchPageThen False e (Some []) (Some 0) st) = [] \<and>
      totalCount (fetchPageThen False e (Some []) (Some 0) st) = 0 \<and>
      sent (fetchPageThen False e (Some []) (Some 0) st) = sent st \<and>
      maybeLoadMoreSimple e (fetchPageThen False e (Some []) (Some 0) st)
        = fetchPageThen False e (Some []) (Some 0) st) \<and>
   sent (pageLoad e n c d m :: 'p table) =
     [\<lparr>rq_page = 1, rq_per_page = PER_PAGE, rq_search = '''', rq_active_only = False,
       rq_sort_col = sortCol (initTable n c d m :: 'p table),
       rq_sort_dir = sortDir (initTable n c d m :: 'p table), rq_append = False\<rparr>] \<and>
   (\<not> fetchInFlight st \<longrightarrow>
      sent (reloadPeopleAndResetScroll e st) =
        sent st @ [\<lparr>rq_page = 1, rq_per_page = PER_PAGE, rq_search = currentSearch st,
                    rq_active_only = currentActiveOnly st, rq_sort_col = sortCol st,
                    rq_sort_dir = sortDir st, rq_append = False\<rparr>])"
proof (intro conjI impI)
  assume z: "totalCount st = 0"
  show "ensureDataForRange s t st = (st, None)" using z by (simp add: ensure_covered)
  show "maybeLoadMoreSimple e st = st" using z by (simp add: maybeLoadMoreSimple_done)
  show "sent (renderVirtual e st) = sent st" and "outstanding (renderVirtual e st) = outstanding st"
    using z by (simp_all add: renderVirtual_empty)
next
  assume m: "simpleScroll st"
  let ?st' = "fetchPageThen app e people tot st"
  have eq: "?st' = renderSimple e (storePage app e people tot st)"
    using m by (rule fetchPageThen_simple)
  show "tbodyRows ?st' = allLoaded ?st'" and "spacerHeight ?st' = 0" and "\<not> spacerShown ?st'"
    and "bottomSpacer ?st' = None"
    unfolding eq by (simp_all add: renderSimple_def)
next
  assume a: "outstanding st = (rq, k) # rest \<and> simpleScroll st \<and>
      k \<in> {ContReload, ContSimpleMore, ContInitial}"
  then have o: "outstanding st = (rq, k) # rest" and m: "simpleScroll st"
    and k: "k \<in> {ContReload, ContSimpleMore, ContInitial}" by simp_all
  show "tbodyRows (settle e (JObj people tot) st) = allLoaded (settle e (JObj people tot) st)"
    and "spacerHeight (settle e (JObj people tot) st) = 0"
    and "bottomSpacer (settle e (JObj people tot) st) = None"
    using settle_simple_rows[OF o m k] by simp_all
next
  assume m: "simpleScroll st"
  let ?st' = "fetchPageThen False e (Some []) (Some 0) st"
  have eq: "?st' = renderSimple e (storePage False e (Some []) (Some 0) st)"
    using m by (rule fetchPageThen_simple)
  show "tbodyRows ?st' = []" and "totalCount ?st' = 0" and "sent ?st' = sent st"
    unfolding eq storePage_empty by (simp_all add: renderSimple_def)
  have "totalCount ?st' \<le> int (length (allLoaded ?st'))"
    unfolding eq storePage_empty by (simp add: renderSimple_def)
  then show "maybeLoadMoreSimple e ?st' = ?st'" by (rule maybeLoadMoreSimple_done)
next
  show "sent (pageLoad e n c d m :: 'p table) =
     [\<lparr>rq_page = 1, rq_per_page = PER_PAGE, rq_search = '''', rq_active_only = False,
       rq_sort_col = sortCol (initTable n c d m :: 'p table),
       rq_sort_dir = sortDir (initTable n c d m :: 'p table), rq_append = False\<rparr>]"
    by (rule pageLoad_sent)
next
  assume i: "\<not> fetchInFlight st"
  show "sent (reloadPeopleAndResetScroll e st) =
        sent st @ [\<lparr>rq_page = 1, rq_per_page = PER_PAGE, rq_search = currentSearch st,
                    rq_active_only = currentActiveOnly st, rq_sort_col = sortCol st,
                    rq_sort_dir = sortDir st, rq_append = False\<rparr>]"
    using i by (simp add: reloadPeopleAndResetScroll_def fetchPage_idle thenCallback_def issue_def)
qed

theorem empty_total_witness:
  "ensureDataForRange 0 60 exEmptied = (exEmptied, None) \<and>
   sent (renderVirtual exEnv exEmptied) = sent exEmptied \<and>
   tbodyRows (fetchPageThen False exEnv (Some []) (Some 0) exSimple) = [] \<and>
   spacerHeight (fetchPageThen False exEnv (Some []) (Some 0) exSimple) = 0 \<and>
   bottomSpacer (fetchPageThen False exEnv (Some []) (Some 0) exSimple) = None \<and>
   map rq_page (sent (reloadPeopleAndResetScroll exEnv exEmptied)) = [1, 1] \<and>
   tbodyRows (settle exEnv exNoMatch exSimple) = allLoaded (settle exEnv exNoMatch exSimple) \<and>
   bottomSpacer (settle exEnv exNoMatch exSimple) = None"
proof -
  have o: "outstanding exSimple = (exPage2, ContSimpleMore) # [] \<and> simpleScroll exSimple \<and>
           ContSimpleMore \<in> {ContReload, ContSimpleMore, ContInitial}"
    by (simp add: exSimple_def exPage1_def exPage2_def exEnv_def simple_defs)
  note T3 = empty_total [where st = exSimple and e = exEnv and rq = exPage2
      and k = ContSimpleMore and rest = "[]" and people = "Some []" and tot = "Some 0"]
  have 5: "tbodyRows (settle exEnv (JObj (Some []) (Some 0)) exSimple)
             = allLoaded (settle exEnv (JObj (Some []) (Some 0)) exSimple) \<and>
           bottomSpacer (settle exEnv (JObj (Some []) (Some 0)) exSimple) = None"
    using T3 o by blast
  have z: "totalCount exEmptied = 0" by (simp add: exEmptied_eq)
  have m: "simpleScroll exSimple"
    by (simp add: exSimple_def exPage1_def exEnv_def simple_defs)
  have i: "\<not> fetchInFlight exEmptied"
    by (simp add: exEmptied_eq exScrolled_eq exVirtual_fields)
  note T1 = empty_total [where st = exEmptied and s = 0 and t = 60 and e = exEnv]
  note T2 = empty_total [where st = exSimple and e = exEnv and app = False
      and people = "Some []" and tot = "Some 0"]
  have 1: "ensureDataForRange 0 60 exEmptied = (exEmptied, None) \<and>
           sent (renderVirtual exEnv exEmptied) = sent exEmptied"
    using T1 z by blast
  have 2: "tbodyRows (fetchPageThen False exEnv (Some []) (Some 0) exSimple) = [] \<and>
           spacerHeight (fetchPageThen False exEnv (Some []) (Some 0) exSimple) = 0 \<and>
           bottomSpacer (fetchPageThen False exEnv (Some []) (Some 0) exSimple) = None"
    using T2 m by blast
  have 3: "sent (reloadPeopleAndResetScroll exEnv exEmptied) =
        sent exEmptied @ [\<lparr>rq_page = 1, rq_per_page = PER_PAGE, rq_search = currentSearch exEmptied,
                    rq_active_only = currentActiveOnly exEmptied, rq_sort_col = sortCol exEmptied,
                    rq_sort_dir = sortDir exEmptied, rq_append = False\<rparr>]"
    using T1 i by blast
  have 4: "map rq_page (sent (reloadPeopleAndResetScroll exEnv exEmptied)) = [1, 1]"
    unfolding 3 by (simp add: exEmptied_eq)
  from 1 2 4 5 show ?thesis unfolding exNoMatch_def by blast
qed

theorem empty_total_counterexample:
  "totalCount (pageLoad exEnv 0 [] [] True :: string table) = 0 \<and>
   map rq_page (sent (pageLoad exEnv 0 [] [] True :: string table)) = [1] \<and>
   totalCount exEmptied = 0 \<and> \<not> fetchInFlight exEmptied \<and>
   map rq_page (sent exEmptied) = [1] \<and>
   map rq_page (sent (searchInput ''bob'' exEnv exEmptied)) = [1, 1] \<and>
   map rq_search (sent (searchInput ''bob'' exEnv exEmptied)) = [''zzz'', ''bob'']"
proof -
  have 1: "totalCount (pageLoad exEnv 0 [] [] True :: string table) = 0"
    by (simp add: pageLoad_def fetchPage_def thenCallback_def issue_def initTable_def)
  have 2: "map rq_page (sent (pageLoad exEnv 0 [] [] True :: string table)) = [1]"
    by (simp add: pageLoad_sent)
  have i: "\<not> fetchInFlight (exEmptied\<lparr>currentSearch := ''bob''\<rparr>)"
    by (simp add: exEmptied_eq exScrolled_eq exVirtual_fields)
  have t: "trim ''bob'' = ''bob''" by (simp add: trim_def isWhite_def)
  have 3: "sent (searchInput ''bob'' exEnv exEmptied)
           = sent exEmptied @ [\<lparr>rq_page = 1, rq_per_page = PER_PAGE, rq_search = ''bob'',
                    rq_active_only = currentActiveOnly exEmptied, rq_sort_col = sortCol exEmptied,
                    rq_sort_dir = sortDir exEmptied, rq_append = False\<rparr>]"
    unfolding searchInput_def t using i
    by (simp add: reloadPeopleAndResetScroll_def fetchPage_idle thenCallback_def issue_def)
  show ?thesis unfolding 3 using 1 2
    by (simp add: exEmptied_eq exScrolled_eq exVirtual_fields)
qed

subsection \<open>The window at row 120\<close>

lemma exAtRow120_eq:
  "exAtRow120 =
     exVirtual\<lparr>scrollTop := 4800, spacerHeight := 4800, spacerShown := True,
       lastVisibleStart := 120, lastVisibleEnd := 180, fetchInFlight := True,
       sent := [exPage2],
       outstanding := [(exPage2, ContVirtual 120 180 False 2800)]\<rparr>"
proof -
  let ?st = "exVirtual\<lparr>scrollTop := 4800\<rparr>"
  have "renderVirtual exEnv ?st =
     issue \<lparr>rq_page = int (length (allLoaded ?st)) div PER_PAGE + 1, rq_per_page = PER_PAGE,
            rq_search = currentSearch ?st,
            rq_active_only = currentActiveOnly ?st, rq_sort_col = sortCol ?st,
            rq_sort_dir = sortDir ?st, rq_append = True\<rparr>
       (ContVirtual 120 180 (lastVisibleStart ?st = 120 \<and> lastVisibleEnd ?st = 180) 2800)
       (?st\<lparr>theadHeight := (if theadHeight ?st = 0 then thead_offsetHeight exEnv else theadHeight ?st),
           spacerHeight := 4800, spacerShown := (4800 > (0::int)),
           lastVisibleStart := 120, lastVisibleEnd := 180, fetchInFlight := True\<rparr>)"
    by (rule renderVirtual_request)
       (simp_all add: exVirtual_more exVirtual_fields length_exVirtual windows exEnv_def)
  then show ?thesis
    unfolding exAtRow120_def scrollTo_def Let_def
    by (simp add: exVirtual_fields exVirtual_more length_exVirtual issue_def exEnv_def
          exPage2_def PER_PAGE_def)
qed

lemma exAfterPage2_eq:
  "exAfterPage2 =
     exVirtual\<lparr>allLoaded := replicate 100 ''alice'' @ replicate 100 ''bob'',
       scrollTop := 4800, spacerHeight := 4800, spacerShown := True,
       lastVisibleStart := 120, lastVisibleEnd := 180,
       scrollInnerHeight := 10000,
       tbodyRows := replicate 60 ''bob'', bottomSpacer := Some (2800, True),
       sent := [exPage2]\<rparr>"
proof -
  let ?st5 = "exVirtual\<lparr>allLoaded := replicate 100 ''alice'' @ replicate 100 ''bob'',
       scrollTop := 4800, spacerHeight := 4800, spacerShown := True,
       lastVisibleStart := - 1, lastVisibleEnd := - 1, scrollInnerHeight := 10000,
       sent := [exPage2]\<rparr>"
  have store: "storePage True exEnv (Some (replicate 100 ''bob'')) (Some 250)
                 (exAtRow120\<lparr>outstanding := []\<rparr>) = ?st5"
    unfolding exAtRow120_eq
    by (simp add: storePage_def Let_def exVirtual_fields exVirtual_more exEnv_def ROW_HEIGHT_def)
       (simp add: exVirtual_def initTable_def)
  have rv: "renderVirtual exEnv ?st5 =
     renderVirtualThen 120 180 (lastVisibleStart ?st5 = 120 \<and> lastVisibleEnd ?st5 = 180) 2800
       (?st5\<lparr>theadHeight := (if theadHeight ?st5 = 0 then thead_offsetHeight exEnv else theadHeight ?st5),
           spacerHeight := 4800, spacerShown := (4800 > (0::int)),
           lastVisibleStart := 120, lastVisibleEnd := 180\<rparr>)"
    by (rule renderVirtual_covered)
       (simp_all add: exVirtual_more exVirtual_fields windows exEnv_def)
  have app: "rq_append exPage2" by (simp add: exPage2_def)
  have out: "outstanding exAtRow120 = [(exPage2, ContVirtual 120 180 False 2800)]"
    by (simp add: exAtRow120_eq)
  have "exAfterPage2 =
      renderVirtualThen 120 180 False 2800
        (renderVirtual exEnv ?st5)"
    unfolding exAfterPage2_def exPage2Resp_def settle_def out
    by (simp add: app fetchPageSettle_cases fetchPageThen_def Let_def store exVirtual_fields)
  then show ?thesis
    unfolding rv
    by (simp add: renderVirtualThen_def Let_def exVirtual_more exVirtual_fields exEnv_def)
       (simp add: exVirtual_def initTable_def)
qed

text \<open>
  C6, as the code has it. For a positive total the window is: n = floor(max(0, scrollTop -
  header height) / 40); visibleStart = n when n is below the total, and max(0, total - 60)
  when the offset is past the end; visibleEnd = min(total, visibleStart + 60); topHeight =
  visibleStart * 40; bottomHeight = max(0, (total - visibleEnd) * 40). With 250 people and
  the offset of row 120 the window is rows 120 to 180. With page 1 loaded,
  \<^verbatim>\<open>ensureDataForRange(120, 180)\<close> requests page 2; once page 2 is loaded the range is
  covered (181 \<le> 200) and no request for page 3 leaves.
\<close>

theorem window_and_pages:
  "(0 < totalC \<longrightarrow>
      visibleWindow totalC th sc =
        (let n = \<lfloor>max 0 (sc - real_of_int th) / real_of_int ROW_HEIGHT\<rfloor>;
             vs = (if n < totalC then n else max 0 (totalC - VISIBLE_ROWS));
             ve = min totalC (vs + VISIBLE_ROWS)
         in (vs, ve, vs * ROW_HEIGHT, max 0 ((totalC - ve) * ROW_HEIGHT)))) \<and>
   ROW_HEIGHT = 40 \<and> VISIBLE_ROWS = 60 \<and> PER_PAGE = 100 \<and>
   visibleWindow 250 th (real_of_int th + 4800) = (120, 180, 4800, 2800) \<and>
   (totalCount st = 250 \<and> length (allLoaded st) = 100 \<and> \<not> fetchInFlight st \<longrightarrow>
      (\<exists>st1 rq. ensureDataForRange 120 180 st = (st1, Some rq) \<and> rq_page rq = 2)) \<and>
   (totalCount st = 250 \<and> length (allLoaded st) = 200 \<longrightarrow>
      ensureDataForRange 120 180 st = (st, None))"
proof (intro conjI impI)
  assume "0 < totalC"
  then show "visibleWindow totalC th sc =
        (let n = \<lfloor>max 0 (sc - real_of_int th) / real_of_int ROW_HEIGHT\<rfloor>;
             vs = (if n < totalC then n else max 0 (totalC - VISIBLE_ROWS));
             ve = min totalC (vs + VISIBLE_ROWS)
         in (vs, ve, vs * ROW_HEIGHT, max 0 ((totalC - ve) * ROW_HEIGHT)))"
    by (rule window_eq)
next
  show "ROW_HEIGHT = 40" and "VISIBLE_ROWS = 60" and "PER_PAGE = 100"
    by (simp_all add: ROW_HEIGHT_def VISIBLE_ROWS_def PER_PAGE_def)
next
  show "visibleWindow 250 th (real_of_int th + 4800) = (120, 180, 4800, 2800)"
    by (simp add: visibleWindow_def Let_def ROW_HEIGHT_def VISIBLE_ROWS_def)
next
  assume a: "totalCount st = 250 \<and> length (allLoaded st) = 100 \<and> \<not> fetchInFlight st"
  then have "\<not> (min (180 + 1) (totalCount st) \<le> int (length (allLoaded st)) \<or> totalCount st = 0)"
    by simp
  with a show "\<exists>st1 rq. ensureDataForRange 120 180 st = (st1, Some rq) \<and> rq_page rq = 2"
    by (simp add: ensure_idle PER_PAGE_def)
next
  assume "totalCount st = 250 \<and> length (allLoaded st) = 200"
  then show "ensureDataForRange 120 180 st = (st, None)"
    by (simp add: ensure_covered)
qed

theorem window_and_pages_witness:
  "visibleWindow 250 0 4800 = (120, 180, 4800, 2800) \<and>
   (\<exists>st1 rq. ensureDataForRange 120 180 exVirtual = (st1, Some rq) \<and> rq_page rq = 2) \<and>
   ensureDataForRange 120 180 exAfterPage2 = (exAfterPage2, None)"
proof -
  have a: "totalCount exVirtual = 250 \<and> length (allLoaded exVirtual) = 100
           \<and> \<not> fetchInFlight exVirtual"
    by (simp add: exVirtual_fields length_exVirtual)
  have b: "totalCount exAfterPage2 = 250 \<and> length (allLoaded exAfterPage2) = 200"
    by (simp add: exAfterPage2_eq exVirtual_fields)
  have c: "(0::int) < 250" by simp
  note T1 = window_and_pages [where totalC = 250 and th = 0 and sc = 4800 and st = exVirtual]
  note T2 = window_and_pages [where totalC = 250 and th = 0 and sc = 4800 and st = exAfterPage2]
  have "visibleWindow 250 0 4800 =
        (let n = \<lfloor>max 0 (4800 - real_of_int 0) / real_of_int ROW_HEIGHT\<rfloor>;
             vs = (if n < 250 then n else max 0 (250 - VISIBLE_ROWS));
             ve = min 250 (vs + VISIBLE_ROWS)
         in (vs, ve, vs * ROW_HEIGHT, max 0 ((250 - ve) * ROW_HEIGHT)))"
    using T1 c by blast
  then have 1: "visibleWindow 250 0 4800 = (120, 180, 4800, 2800)"
    by (simp add: Let_def ROW_HEIGHT_def VISIBLE_ROWS_def)
  have 2: "\<exists>st1 rq. ensureDataForRange 120 180 exVirtual = (st1, Some rq) \<and> rq_page rq = 2"
    using T1 a by blast
  have 3: "ensureDataForRange 120 180 exAfterPage2 = (exAfterPage2, None)"
    using T2 b by blast
  from 1 2 3 show ?thesis by blast
qed

theorem window_and_pages_counterexample:
  "fst (visibleWindow 10 0 4000) = 0 \<and>
   \<lfloor>max 0 (4000 - real_of_int 0) / real_of_int ROW_HEIGHT\<rfloor> = (100::int) \<and>
   lastVisibleStart exAtRow120 = 120 \<and> lastVisibleEnd exAtRow120 = 180 \<and>
   sent exAtRow120 = [exPage2] \<and>
   length (allLoaded exAfterPage2) = 200 \<and>
   tbodyRows exAfterPage2 = replicate 60 ''bob'' \<and>
   sent exAfterPage2 = [exPage2] \<and> rq_page exPage2 = 2 \<and>
   outstanding exAfterPage2 = [] \<and> \<not> fetchInFlight exAfterPage2"
  by (simp add: windows exAtRow120_eq exAfterPage2_eq exVirtual_fields ROW_HEIGHT_def exPage2_def)

subsection \<open>A query change\<close>

lemma allLoaded_core: "core a = core b \<Longrightarrow> allLoaded a = allLoaded b \<and> totalCount a = totalCount b"
  by (simp add: core_def)

lemma storePage_allLoaded:
  "allLoaded (storePage a e people tot st)
     = (if a then allLoaded st else []) @ (case people of None \<Rightarrow> [] | Some ps \<Rightarrow> ps)"
  by (simp add: storePage_def Let_def)

lemma fetchPageThen_allLoaded:
  "allLoaded (fetchPageThen a e people tot st)
     = (if a then allLoaded st else []) @ (case people of None \<Rightarrow> [] | Some ps \<Rightarrow> ps)"
proof -
  have "core (fetchPageThen a e people tot st) = core (storePage a e people tot st)"
    by (simp add: fetchPageThen_def Let_def core_renderSimple core_renderVirtual)
  then show ?thesis using allLoaded_core storePage_allLoaded by metis
qed

lemma settle_allLoaded:
  assumes "outstanding st = (rq, k) # rest"
  shows "allLoaded (settle e (JObj people tot) st)
     = (if rq_append rq then allLoaded st else []) @ (case people of None \<Rightarrow> [] | Some ps \<Rightarrow> ps)"
proof -
  have "settle e (JObj people tot) st
        = runCont k e (fetchPageThen (rq_append rq) e people tot (st\<lparr>outstanding := rest\<rparr>))"
    using assms by (simp add: settle_def fetchPageSettle_cases)
  then have "core (settle e (JObj people tot) st)
        = core (fetchPageThen (rq_append rq) e people tot (st\<lparr>outstanding := rest\<rparr>))"
    by (simp add: core_runCont)
  then have "allLoaded (settle e (JObj people tot) st)
        = allLoaded (fetchPageThen (rq_append rq) e people tot (st\<lparr>outstanding := rest\<rparr>))"
    using allLoaded_core by blast
  then show ?thesis by (simp add: fetchPageThen_allLoaded)
qed

lemma scrollTop_renderVirtual: "scrollTop (renderVirtual e st) = scrollTop st"
proof (cases "totalCount st \<le> 0")
  case True
  then show ?thesis by (simp add: renderVirtual_empty)
next
  case False
  obtain vs ve tp bh where w: "visibleWindow (totalCount st)
              (if theadHeight st = 0 then thead_offsetHeight e else theadHeight st) (scrollTop st)
            = (vs, ve, tp, bh)"
    by (metis prod_cases4)
  from False have pos: "0 < totalCount st" by simp
  show ?thesis using geometry_renderVirtual[OF pos w] by (simp add: geometry_def)
qed

lemma scrollTop_reloadThen: "scrollTop (reloadThen e st) = 0"
proof -
  have "scrollTop (maybeLoadMoreSimple e (st\<lparr>scrollTop := 0\<rparr>)) = 0"
    using geometry_maybe[of e "st\<lparr>scrollTop := 0\<rparr>"] by (simp add: geometry_def)
  then show ?thesis
    by (simp add: reloadThen_def Let_def scrollTop_renderVirtual)
qed

lemma reload_idle:
  "\<not> fetchInFlight st \<Longrightarrow>
   reloadPeopleAndResetScroll e st =
     issue \<lparr>rq_page = 1, rq_per_page = PER_PAGE, rq_search = currentSearch st,
            rq_active_only = currentActiveOnly st, rq_sort_col = sortCol st,
            rq_sort_dir = sortDir st, rq_append = False\<rparr>
       ContReload (st\<lparr>fetchInFlight := True, loadingShown := True\<rparr>)"
  by (simp add: reloadPeopleAndResetScroll_def fetchPage_idle thenCallback_def)

lemma reload_busy:
  "fetchInFlight st \<Longrightarrow> reloadPeopleAndResetScroll e st = reloadThen e st"
  by (simp add: reloadPeopleAndResetScroll_def fetchPage_busy thenCallback_def)

lemma storePage_totalCount:
  "totalCount (storePage a e people tot st)
     = (case tot of Some n \<Rightarrow> n
        | None \<Rightarrow> int (length ((if a then allLoaded st else [])
                                @ (case people of None \<Rightarrow> [] | Some ps \<Rightarrow> ps))))"
  by (cases tot) (simp_all add: storePage_def Let_def)

lemma fetchPageThen_totalCount:
  "totalCount (fetchPageThen a e people tot st)
     = (case tot of Some n \<Rightarrow> n
        | None \<Rightarrow> int (length (allLoaded (fetchPageThen a e people tot st))))"
proof -
  have "core (fetchPageThen a e people tot st) = core (storePage a e people tot st)"
    by (simp add: fetchPageThen_def Let_def core_renderSimple core_renderVirtual)
  then have "totalCount (fetchPageThen a e people tot st) = totalCount (storePage a e people tot st)"
    using allLoaded_core by blast
  then show ?thesis
    by (cases tot; cases a) (simp_all add: storePage_totalCount fetchPageThen_allLoaded)
qed

lemma settle_core:
  "outstanding st = (rq, k) # rest \<Longrightarrow>
   core (settle e resp st) = core (fetchPageSettle (rq_append rq) e resp (st\<lparr>outstanding := rest\<rparr>))"
  by (simp add: settle_def core_runCont)

lemma ensure_all_loaded:
  "totalCount st = int (length (allLoaded st)) \<Longrightarrow> ensureDataForRange s t st = (st, None)"
  by (simp add: ensure_covered)

lemma settle_Rejected_allLoaded:
  assumes "outstanding st = (rq, k) # rest"
  shows "allLoaded (settle e Rejected st) = allLoaded st"
proof -
  have "core (settle e Rejected st) = core (st\<lparr>outstanding := rest\<rparr>)"
    using settle_core[OF assms] by (simp add: fetchPageSettle_Rejected)
  then show ?thesis by (simp add: core_def)
qed

text \<open>
  C4, as the code has it. On a query change made while no request is in flight,
  \<^verbatim>\<open>reloadPeopleAndResetScroll\<close> sends the request for page 1 of the new query first, and
  the loaded list and the scroll position are still what they were. When that request is
  answered by a JSON object, the loaded list is replaced by the people of the answer (by
  the empty list if it has none); when the request is rejected (the network fails, or the
  body is not JSON), the list stays as it was. The scroll position is set to 0 in the
  callback that runs once the request has settled, whatever the answer.
\<close>

theorem query_change_reload:
  "(\<not> fetchInFlight st \<longrightarrow>
      reloadPeopleAndResetScroll e st =
        issue \<lparr>rq_page = 1, rq_per_page = PER_PAGE, rq_search = currentSearch st,
               rq_active_only = currentActiveOnly st, rq_sort_col = sortCol st,
               rq_sort_dir = sortDir st, rq_append = False\<rparr>
          ContReload (st\<lparr>fetchInFlight := True, loadingShown := True\<rparr>) \<and>
      allLoaded (reloadPeopleAndResetScroll e st) = allLoaded st \<and>
      scrollTop (reloadPeopleAndResetScroll e st) = scrollTop st) \<and>
   (outstanding st = (rq, ContReload) # rest \<longrightarrow>
      scrollTop (settle e resp st) = 0 \<and>
      allLoaded (settle e Rejected st) = allLoaded st \<and>
      (\<not> rq_append rq \<longrightarrow>
         allLoaded (settle e (JObj people tot) st)
           = (case people of None \<Rightarrow> [] | Some ps \<Rightarrow> ps))) \<and>
   (\<not> fetchInFlight st \<and> outstanding st = [] \<longrightarrow>
      scrollTop (settle e resp (reloadPeopleAndResetScroll e st)) = 0 \<and>
      allLoaded (settle e Rejected (reloadPeopleAndResetScroll e st)) = allLoaded st \<and>
      allLoaded (settle e (JObj people tot) (reloadPeopleAndResetScroll e st))
        = (case people of None \<Rightarrow> [] | Some ps \<Rightarrow> ps))"
proof (intro conjI impI)
  assume i: "\<not> fetchInFlight st"
  show "reloadPeopleAndResetScroll e st =
        issue \<lparr>rq_page = 1, rq_per_page = PER_PAGE, rq_search = currentSearch st,
               rq_active_only = currentActiveOnly st, rq_sort_col = sortCol st,
               rq_sort_dir = sortDir st, rq_append = False\<rparr>
          ContReload (st\<lparr>fetchInFlight := True, loadingShown := True\<rparr>)"
    using i by (rule reload_idle)
  show "allLoaded (reloadPeopleAndResetScroll e st) = allLoaded st"
    and "scrollTop (reloadPeopleAndResetScroll e st) = scrollTop st"
    by (simp_all add: reload_idle[OF i] issue_def)
next
  assume o: "outstanding st = (rq, ContReload) # rest"
  show "scrollTop (settle e resp st) = 0"
    using o by (simp add: settle_def scrollTop_reloadThen)
  show "allLoaded (settle e Rejected st) = allLoaded st"
    using o by (rule settle_Rejected_allLoaded)
next
  assume o: "outstanding st = (rq, ContReload) # rest" and a: "\<not> rq_append rq"
  show "allLoaded (settle e (JObj people tot) st)
           = (case people of None \<Rightarrow> [] | Some ps \<Rightarrow> ps)"
    using settle_allLoaded[OF o] a by simp
next
  assume a: "\<not> fetchInFlight st \<and> outstanding st = []"
  let ?rq = "\<lparr>rq_page = 1, rq_per_page = PER_PAGE, rq_search = currentSearch st,
               rq_active_only = currentActiveOnly st, rq_sort_col = sortCol st,
               rq_sort_dir = sortDir st, rq_append = False\<rparr>"
  let ?st' = "reloadPeopleAndResetScroll e st"
  have o: "outstanding ?st' = (?rq, ContReload) # []"
    using a by (simp add: reload_idle issue_def)
  have l: "allLoaded ?st' = allLoaded st"
    using a by (simp add: reload_idle issue_def)
  show "scrollTop (settle e resp ?st') = 0"
    using o by (simp add: settle_def scrollTop_reloadThen)
  show "allLoaded (settle e Rejected ?st') = allLoaded st"
    using settle_Rejected_allLoaded[OF o] l by simp
  show "allLoaded (settle e (JObj people tot) ?st')
        = (case people of None \<Rightarrow> [] | Some ps \<Rightarrow> ps)"
    using settle_allLoaded[OF o] by simp
qed

theorem query_change_reload_witness:
  "allLoaded (reloadPeopleAndResetScroll exEnv (exScrolled\<lparr>currentSearch := ''bob''\<rparr>))
     = allLoaded exScrolled \<and>
   scrollTop (reloadPeopleAndResetScroll exEnv (exScrolled\<lparr>currentSearch := ''bob''\<rparr>)) = 400 \<and>
   scrollTop (settle exEnv exNoMatch exQueryChanged) = 0 \<and>
   allLoaded (settle exEnv exNoMatch exQueryChanged) = [] \<and>
   allLoaded (settle exEnv Rejected exQueryChanged) = allLoaded exQueryChanged \<and>
   allLoaded (settle exEnv Rejected
               (reloadPeopleAndResetScroll exEnv (exScrolled\<lparr>currentSearch := ''bob''\<rparr>)))
     = allLoaded exScrolled"
proof -
  let ?st = "exScrolled\<lparr>currentSearch := ''bob''\<rparr>"
  let ?rq = "\<lparr>rq_page = 1, rq_per_page = 100, rq_search = ''bob'', rq_active_only = False,
                 rq_sort_col = ''count'', rq_sort_dir = ''desc'', rq_append = False\<rparr>"
  have i: "\<not> fetchInFlight ?st" by (simp add: exScrolled_eq exVirtual_fields)
  have i2: "\<not> fetchInFlight ?st \<and> outstanding ?st = []"
    by (simp add: exScrolled_eq exVirtual_fields)
  have o: "outstanding exQueryChanged = (?rq, ContReload) # []"
    by (simp add: exQueryChanged_eq)
  have a: "\<not> rq_append ?rq" by simp
  note T1 = query_change_reload [where st = ?st and e = exEnv]
  note T2 = query_change_reload [where st = exQueryChanged and e = exEnv and rq = ?rq
      and rest = "[]" and resp = exNoMatch and people = "Some []" and tot = "Some 0"]
  have 1: "allLoaded (reloadPeopleAndResetScroll exEnv ?st) = allLoaded ?st
           \<and> scrollTop (reloadPeopleAndResetScroll exEnv ?st) = scrollTop ?st"
    using T1 i by blast
  have 2: "scrollTop (settle exEnv exNoMatch exQueryChanged) = 0
           \<and> allLoaded (settle exEnv Rejected exQueryChanged) = allLoaded exQueryChanged
           \<and> allLoaded (settle exEnv (JObj (Some []) (Some 0)) exQueryChanged)
               = (case Some [] of None \<Rightarrow> [] | Some ps \<Rightarrow> ps)"
    using T2 o a by blast
  have 3: "allLoaded (settle exEnv Rejected (reloadPeopleAndResetScroll exEnv ?st)) = allLoaded ?st"
    using T1 i2 by blast
  from 1 2 3 show ?thesis
    by (simp add: exNoMatch_def exScrolled_eq)
qed

theorem query_change_reload_counterexample:
  "\<not> fetchInFlight exScrolled \<and>
   allLoaded exScrolled = replicate 100 ''alice'' \<and> scrollTop exScrolled = 400 \<and>
   sent exScrolled = [] \<and>
   map rq_page (sent exQueryChanged) = [1] \<and>
   map rq_search (sent exQueryChanged) = [''bob''] \<and>
   allLoaded exQueryChanged = replicate 100 ''alice'' \<and>
   scrollTop exQueryChanged = 400 \<and>
   allLoaded (settle exEnv Rejected exQueryChanged) = replicate 100 ''alice''"
proof -
  have "allLoaded (settle exEnv Rejected exQueryChanged) = replicate 100 ''alice''"
    unfolding exQueryChanged_eq exScrolled_eq
    by (simp add: settle_def fetchPageSettle_cases fetchPageCatch_def reloadThen_def Let_def
          exVirtual_fields exVirtual_more core_renderVirtual[THEN allLoaded_core, THEN conjunct1])
  then show ?thesis
    by (simp add: exQueryChanged_eq exScrolled_eq exVirtual_fields exVirtual_more)
qed

subsection \<open>A query change while a request is in flight\<close>

lemma exSimple_eq:
  "exSimple =
     (initTable 250 [] [] True)\<lparr>allLoaded := replicate 100 ''alice'',
        tbodyRows := replicate 100 ''alice'', scrollInnerHeight := 4000,
        fetchInFlight := True,
        sent := [\<lparr>rq_page = 1, rq_per_page = 100, rq_search = [], rq_active_only = False,
                  rq_sort_col = ''count'', rq_sort_dir = ''desc'', rq_append = False\<rparr>,
                 exPage2],
        outstanding := [(exPage2, ContSimpleMore)]\<rparr>"
  unfolding exSimple_def exPage1_def exPage2_def exEnv_def
  by (simp add: simple_defs)

lemma exSearchBob_eq: "exSearchBob = exSimple\<lparr>currentSearch := ''bob''\<rparr>"
  unfolding exSearchBob_def exSimple_eq exEnv_def
  by (simp add: simple_defs)

lemma exAfterStale_eq:
  "exAfterStale =
     exSimple\<lparr>currentSearch := ''bob'',
        allLoaded := replicate 100 ''alice'' @ replicate 100 ''carol'',
        tbodyRows := replicate 100 ''alice'' @ replicate 100 ''carol'',
        scrollInnerHeight := 8000,
        sent := sent exSimple @
                [\<lparr>rq_page = 3, rq_per_page = 100, rq_search = ''bob'', rq_active_only = False,
                  rq_sort_col = ''count'', rq_sort_dir = ''desc'', rq_append = True\<rparr>],
        outstanding :=
                [(\<lparr>rq_page = 3, rq_per_page = 100, rq_search = ''bob'', rq_active_only = False,
                  rq_sort_col = ''count'', rq_sort_dir = ''desc'', rq_append = True\<rparr>,
                  ContSimpleMore)]\<rparr>"
  unfolding exAfterStale_def exSearchBob_eq exStale_def exSimple_eq exEnv_def exPage2_def
  by (simp add: simple_defs)

lemma step_query_core:
  assumes "isQueryChange ev"
  shows "allLoaded (step e ev st) = allLoaded st \<and> totalCount (step e ev st) = totalCount st"
proof (cases ev)
  case (SearchInput v)
  show ?thesis
    unfolding SearchInput step.simps searchInput_def
    using core_reload[of e "st\<lparr>currentSearch := trim v\<rparr>"] by (simp add: core_def)
next
  case (ActiveOnlyChange b)
  show ?thesis
    unfolding ActiveOnlyChange step.simps activeOnlyChange_def
    using core_reload[of e "st\<lparr>currentActiveOnly := b\<rparr>"] by (simp add: core_def)
next
  case (SortClick c ty)
  show ?thesis
  proof (cases "c = sortCol st")
    case True
    with assms SortClick show ?thesis
      using core_reload[of e "st\<lparr>sortDir := (if sortDir st = ''asc'' then ''desc'' else ''asc'')\<rparr>"]
      by (simp add: sortClick_def core_def)
  next
    case False
    with assms SortClick show ?thesis
      using core_reload[of e "st\<lparr>sortCol := c,
                      sortDir := (if ty = ''string'' then ''asc'' else ''desc'')\<rparr>"]
      by (simp add: sortClick_def core_def)
  qed
next
  case (Scroll v)
  with assms show ?thesis by simp
next
  case (Settle r)
  with assms show ?thesis by simp
qed

lemma isQueryChange_not_settle: "isQueryChange ev \<Longrightarrow> \<not> isSettle ev"
  by (cases ev) simp_all

lemma query_change_while_busy:
  "(fetchInFlight st \<and> isQueryChange ev \<longrightarrow>
      sent (step e ev st) = sent st \<and> outstanding (step e ev st) = outstanding st \<and>
      allLoaded (step e ev st) = allLoaded st \<and> totalCount (step e ev st) = totalCount st) \<and>
   (outstanding st = (rq, k) # rest \<longrightarrow>
      allLoaded (settle e (JObj people tot) st)
        = (if rq_append rq then allLoaded st else [])
          @ (case people of None \<Rightarrow> [] | Some ps \<Rightarrow> ps)) \<and>
   (simpleScroll st \<longrightarrow>
      tbodyRows (fetchPageThen app e people tot st)
        = (if app then allLoaded st else [])
          @ (case people of None \<Rightarrow> [] | Some ps \<Rightarrow> ps))"
proof (intro conjI impI)
  assume a: "fetchInFlight st \<and> isQueryChange ev"
  then have "sf st (step e ev st)"
    using sf_step isQueryChange_not_settle by blast
  then show "sent (step e ev st) = sent st" and "outstanding (step e ev st) = outstanding st"
    using a sf_sent by blast+
  show "allLoaded (step e ev st) = allLoaded st" and "totalCount (step e ev st) = totalCount st"
    using a step_query_core by blast+
next
  assume "outstanding st = (rq, k) # rest"
  then show "allLoaded (settle e (JObj people tot) st)
        = (if rq_append rq then allLoaded st else [])
          @ (case people of None \<Rightarrow> [] | Some ps \<Rightarrow> ps)"
    by (rule settle_allLoaded)
next
  assume m: "simpleScroll st"
  have "fetchPageThen app e people tot st = renderSimple e (storePage app e people tot st)"
    using m by (simp add: fetchPageThen_def Let_def storePage_flags)
  then show "tbodyRows (fetchPageThen app e people tot st)
        = (if app then allLoaded st else [])
          @ (case people of None \<Rightarrow> [] | Some ps \<Rightarrow> ps)"
    by (simp add: renderSimple_def storePage_allLoaded)
qed

text \<open>
  C1, at an input where the code departs from it. Simple mode, 250 people, page 1 loaded
  and the request for page 2 of the unfiltered list in flight (\<open>exSimple\<close>). The search box
  changes to "bob" (\<open>exSearchBob\<close>): \<^verbatim>\<open>fetchPage(1, "bob", false)\<close> returns at its first
  line, so no request for "bob" leaves and the outstanding request is still the one for
  the old query. Its answer, 100 people of the unfiltered list, is then appended to the
  loaded list and rendered, and the request that follows is for page 3 of "bob"
  (\<open>exAfterStale\<close>). The same change made while nothing is in flight sends the request
  for page 1 of "bob" (\<open>exQueryChanged\<close>).
\<close>

theorem query_change_drops_reload:
  "fetchInFlight exSimple \<and>
   outstanding exSimple = [(exPage2, ContSimpleMore)] \<and> rq_search exPage2 = [] \<and>
   currentSearch exSearchBob = ''bob'' \<and>
   outstanding exSearchBob = [(exPage2, ContSimpleMore)] \<and>
   sent exSearchBob = sent exSimple \<and>
   currentSearch exAfterStale = ''bob'' \<and>
   allLoaded exAfterStale = replicate 100 ''alice'' @ replicate 100 ''carol'' \<and>
   tbodyRows exAfterStale = replicate 100 ''alice'' @ replicate 100 ''carol'' \<and>
   map rq_search (sent exAfterStale) = ['''', '''', ''bob''] \<and>
   map rq_page (sent exAfterStale) = [1, 2, 3] \<and>
   \<not> fetchInFlight exScrolled \<and> sent exScrolled = [] \<and>
   map rq_search (sent exQueryChanged) = [''bob''] \<and>
   map rq_page (sent exQueryChanged) = [1]"
  by (simp add: exAfterStale_eq exSearchBob_eq exSimple_eq exPage2_def
        exQueryChanged_eq exScrolled_eq exVirtual_fields exVirtual_more)

subsection \<open>A request answered by an error\<close>

lemma exAfterError_core:
  "allLoaded exAfterError = allLoaded exAtRow120"
  "totalCount exAfterError = 100"
proof -
  have o: "outstanding exAtRow120 = (exPage2, ContVirtual 120 180 False 2800) # []"
    by (simp add: exAtRow120_eq)
  have a: "rq_append exPage2" by (simp add: exPage2_def)
  have c: "core exAfterError
           = core (fetchPageThen True exEnv None None (exAtRow120\<lparr>outstanding := []\<rparr>))"
    unfolding exAfterError_def exErrorBody_def
    using settle_core[OF o, of exEnv "JObj None None"] a by (simp add: fetchPageSettle_cases)
  show 1: "allLoaded exAfterError = allLoaded exAtRow120"
    using c allLoaded_core[OF c] by (simp add: fetchPageThen_allLoaded)
  have "totalCount exAfterError
        = totalCount (fetchPageThen True exEnv None None (exAtRow120\<lparr>outstanding := []\<rparr>))"
    using allLoaded_core[OF c] by simp
  then show "totalCount exAfterError = 100"
    by (simp add: fetchPageThen_totalCount fetchPageThen_allLoaded exAtRow120_eq exVirtual_more)
qed

lemma rejected_keeps_cache:
  "(allLoaded (fetchPageSettle app e Rejected st) = allLoaded st \<and>
    totalCount (fetchPageSettle app e Rejected st) = totalCount st \<and>
    \<not> fetchInFlight (fetchPageSettle app e Rejected st)) \<and>
   (ensureDataForRange s t st = (st1, Some rq) \<and> failed resp \<longrightarrow>
      allLoaded (fetchPageSettle (rq_append rq) e resp st1) = allLoaded st \<and>
      totalCount (fetchPageSettle (rq_append rq) e resp st1) = totalCount st \<and>
      \<not> fetchInFlight (fetchPageSettle (rq_append rq) e resp st1) \<and>
      (\<exists>st3. ensureDataForRange s t (fetchPageSettle (rq_append rq) e resp st1) = (st3, Some rq))) \<and>
   (ensureDataForRange s t st = (st1, Some rq) \<and> failed resp \<and> outstanding st = [] \<longrightarrow>
      allLoaded (settle e resp (issue rq (ContVirtual vs ve ru bh) st1)) = allLoaded st \<and>
      totalCount (settle e resp (issue rq (ContVirtual vs ve ru bh) st1)) = totalCount st \<and>
      (\<exists>st3. ensureDataForRange s t (settle e resp (issue rq (ContVirtual vs ve ru bh) st1))
               = (st3, Some rq))) \<and>
   fetchPagePromise app e resp st = Fulfilled (fetchPageSettle app e resp st) \<and>
   (allLoaded (fetchPageSettle app e (JObj people tot) st)
      = (if app then allLoaded st else []) @ (case people of None \<Rightarrow> [] | Some ps \<Rightarrow> ps) \<and>
    totalCount (fetchPageSettle app e (JObj people tot) st)
      = (case tot of Some n \<Rightarrow> n
         | None \<Rightarrow> int (length (allLoaded (fetchPageSettle app e (JObj people tot) st))))) \<and>
   (outstanding st = (rq, k) # rest \<longrightarrow>
      totalCount (settle e (JObj people None) st)
        = int (length (allLoaded (settle e (JObj people None) st))) \<and>
      ensureDataForRange s t (settle e (JObj people None) st)
        = (settle e (JObj people None) st, None))"
proof (intro conjI impI)
  show "allLoaded (fetchPageSettle app e Rejected st) = allLoaded st"
    and "totalCount (fetchPageSettle app e Rejected st) = totalCount st"
    using fetchPageSettle_Rejected(1)[of app e st] by (simp_all add: core_def)
  show "\<not> fetchInFlight (fetchPageSettle app e Rejected st)"
    by (rule fetchPageSettle_Rejected)
next
  assume a: "ensureDataForRange s t st = (st1, Some rq) \<and> failed resp"
  then have r: "ensureDataForRange s t st = (st1, Some rq)" and fl: "failed resp" by simp_all
  have app: "rq_append rq" using r ensure_Some by blast
  have c1: "core st1 = core st" using core_ensure[of s t st] r by simp
  let ?st2 = "fetchPageSettle (rq_append rq) e resp st1"
  have eq: "?st2 = fetchPageCatch st1"
    using app fl by (simp add: fetchPageSettle_failed_append)
  have c2: "core ?st2 = core st" by (simp add: eq core_fetchPageCatch c1)
  have f2: "\<not> fetchInFlight ?st2" by (simp add: eq fetchPageCatch_def)
  show "allLoaded ?st2 = allLoaded st" and "totalCount ?st2 = totalCount st"
    using c2 by (simp_all add: core_def)
  show "\<not> fetchInFlight ?st2" by (rule f2)
  show "\<exists>st3. ensureDataForRange s t ?st2 = (st3, Some rq)"
    using ensure_same_request[OF r c2 f2] by blast
next
  assume a: "ensureDataForRange s t st = (st1, Some rq) \<and> failed resp \<and> outstanding st = []"
  then have r: "ensureDataForRange s t st = (st1, Some rq)" and fl: "failed resp"
    and o: "outstanding st = []" by simp_all
  have app: "rq_append rq" using r ensure_Some by blast
  have idle: "\<not> fetchInFlight st" using r ensure_Some by blast
  have unmet: "\<not> (min (t + 1) (totalCount st) \<le> int (length (allLoaded st)) \<or> totalCount st = 0)"
    using r ensure_covered[of t st s] by auto
  have st1: "st1 = st\<lparr>fetchInFlight := True\<rparr>"
    using r unfolding ensure_idle[OF idle unmet] by simp
  let ?k = "ContVirtual vs ve ru bh"
  let ?st2 = "settle e resp (issue rq ?k st1)"
  have eq: "?st2 = renderVirtualThen vs ve ru bh
                     (fetchPageCatch (issue rq ?k st1\<lparr>outstanding := []\<rparr>))"
    using app fl o by (simp add: settle_def issue_def st1 fetchPageSettle_failed_append)
  have c2: "core ?st2 = core st"
    unfolding eq by (simp add: core_renderVirtualThen core_fetchPageCatch)
       (simp add: core_def issue_def st1)
  have f2: "\<not> fetchInFlight ?st2"
    unfolding eq by (simp add: renderVirtualThen_def Let_def fetchPageCatch_def)
  show "allLoaded ?st2 = allLoaded st" and "totalCount ?st2 = totalCount st"
    using c2 by (simp_all add: core_def)
  show "\<exists>st3. ensureDataForRange s t ?st2 = (st3, Some rq)"
    using ensure_same_request[OF r c2 f2] by blast
next
  show "fetchPagePromise app e resp st = Fulfilled (fetchPageSettle app e resp st)"
    by (rule fetchPagePromise_fulfilled)
next
  show "allLoaded (fetchPageSettle app e (JObj people tot) st)
      = (if app then allLoaded st else []) @ (case people of None \<Rightarrow> [] | Some ps \<Rightarrow> ps)"
    by (simp add: fetchPageSettle_cases fetchPageThen_allLoaded)
  show "totalCount (fetchPageSettle app e (JObj people tot) st)
      = (case tot of Some n \<Rightarrow> n
         | None \<Rightarrow> int (length (allLoaded (fetchPageSettle app e (JObj people tot) st))))"
    by (cases tot) (simp_all add: fetchPageSettle_cases fetchPageThen_totalCount)
next
  assume o: "outstanding st = (rq, k) # rest"
  let ?st2 = "settle e (JObj people None) st"
  let ?in = "fetchPageThen (rq_append rq) e people None (st\<lparr>outstanding := rest\<rparr>)"
  have c: "core ?st2 = core ?in"
    using settle_core[OF o, of e "JObj people None"] by (simp add: fetchPageSettle_cases)
  have "totalCount ?in = int (length (allLoaded ?in))"
    by (simp add: fetchPageThen_totalCount)
  then show tc: "totalCount ?st2 = int (length (allLoaded ?st2))"
    using allLoaded_core[OF c] by simp
  show "ensureDataForRange s t ?st2 = (?st2, None)"
    using tc by (rule ensure_all_loaded)
qed

lemma fetchInFlight_renderVirtualThen:
  "fetchInFlight (renderVirtualThen a b c d st) = fetchInFlight st"
  by (simp add: renderVirtualThen_def Let_def)

lemma exAfterReject:
  "core (settle exEnv Rejected exAtRow120) = core exVirtual"
  "\<not> fetchInFlight (settle exEnv Rejected exAtRow120)"
proof -
  have o: "outstanding exAtRow120 = (exPage2, ContVirtual 120 180 False 2800) # []"
    by (simp add: exAtRow120_eq)
  have "core (settle exEnv Rejected exAtRow120)
        = core (fetchPageSettle (rq_append exPage2) exEnv Rejected (exAtRow120\<lparr>outstanding := []\<rparr>))"
    by (rule settle_core[OF o])
  then show "core (settle exEnv Rejected exAtRow120) = core exVirtual"
    by (simp add: fetchPageSettle_Rejected) (simp add: core_def exAtRow120_eq)
  show "\<not> fetchInFlight (settle exEnv Rejected exAtRow120)"
    using o by (simp add: settle_def fetchInFlight_renderVirtualThen fetchPageSettle_Rejected)
qed

lemma settle_no_total:
  assumes o: "outstanding st = (rq, k) # rest"
  shows "totalCount (settle e (JObj people None) st)
         = int (length (allLoaded (settle e (JObj people None) st)))"
proof -
  let ?in = "fetchPageThen (rq_append rq) e people None (st\<lparr>outstanding := rest\<rparr>)"
  have c: "core (settle e (JObj people None) st) = core ?in"
    using settle_core[OF o, of e "JObj people None"] by (simp add: fetchPageSettle_cases)
  have "totalCount ?in = int (length (allLoaded ?in))"
    by (simp add: fetchPageThen_totalCount)
  then show ?thesis using allLoaded_core[OF c] by simp
qed

lemma exSimpleError:
  "totalCount (settle exEnv exErrorBody exSimple) = 100"
  "allLoaded (settle exEnv exErrorBody exSimple) = allLoaded exSimple"
  "sent (settle exEnv exErrorBody exSimple) = sent exSimple"
  "\<not> fetchInFlight (settle exEnv exErrorBody exSimple)"
  "maybeLoadMoreSimple exEnv (settle exEnv exErrorBody exSimple) = settle exEnv exErrorBody exSimple"
proof -
  let ?s0 = "exSimple\<lparr>outstanding := []\<rparr>"
  let ?s1 = "fetchPageThen True exEnv None None ?s0"
  have o: "outstanding exSimple = (exPage2, ContSimpleMore) # []" by (simp add: exSimple_eq)
  have a: "rq_append exPage2" by (simp add: exPage2_def)
  have m: "simpleScroll ?s0" by (simp add: exSimple_eq initTable_def)
  have t: "totalCount ?s1 \<le> int (length (allLoaded ?s1))"
    by (simp add: fetchPageThen_totalCount)
  have s: "settle exEnv exErrorBody exSimple = ?s1"
    unfolding exErrorBody_def using o a
    by (simp add: settle_def fetchPageSettle_cases maybeLoadMoreSimple_done[OF t])
  have eq: "?s1 = renderSimple exEnv (storePage True exEnv None None ?s0)"
    using m by (rule fetchPageThen_simple)
  show 2: "allLoaded (settle exEnv exErrorBody exSimple) = allLoaded exSimple"
    unfolding s by (simp add: fetchPageThen_allLoaded)
  show "totalCount (settle exEnv exErrorBody exSimple) = 100"
    unfolding s by (simp add: fetchPageThen_totalCount fetchPageThen_allLoaded exSimple_eq)
  show "sent (settle exEnv exErrorBody exSimple) = sent exSimple"
    unfolding s eq by (simp add: renderSimple_def storePage_flags)
  show "\<not> fetchInFlight (settle exEnv exErrorBody exSimple)"
    unfolding s eq by (simp add: renderSimple_def storePage_flags)
  show "maybeLoadMoreSimple exEnv (settle exEnv exErrorBody exSimple) = settle exEnv exErrorBody exSimple"
    unfolding s by (rule maybeLoadMoreSimple_done[OF t])
qed

text \<open>
  C5, at inputs where the code departs from it. Virtual mode, 250 people, page 1 loaded,
  scrolled to row 120, so that \<^verbatim>\<open>ensureDataForRange(120, 180)\<close> has sent the request for
  page 2 (\<open>exAtRow120\<close>). The server answers with an error page whose body is a JSON
  object without \<^verbatim>\<open>people\<close> and \<^verbatim>\<open>total\<close> (\<open>exErrorBody\<close>); \<^verbatim>\<open>r.ok\<close> is not read, the
  body is stored as a page, \<^verbatim>\<open>totalCount\<close> falls from 250 to the 100 people loaded, and
  \<^verbatim>\<open>ensureDataForRange(120, 180)\<close> sends nothing from then on (\<open>exAfterError\<close>). Had the
  same request been rejected, the total would still be 250 and the same call would send
  the request for page 2 again. In simple mode the same answer to the request for page 2
  that \<^verbatim>\<open>maybeLoadMoreSimple\<close> has sent (\<open>exSimple\<close>) has the same effect, and
  \<^verbatim>\<open>maybeLoadMoreSimple\<close> sends nothing from then on. Second input: the reload request of a query change
  (\<open>exQueryChanged\<close>, 100 people loaded) is answered by the body \<^verbatim>\<open>null\<close>; the handler
  has emptied the loaded list when \<^verbatim>\<open>res.people\<close> throws.
\<close>

theorem error_body_ends_paging:
  "totalCount exAtRow120 = 250 \<and> length (allLoaded exAtRow120) = 100 \<and>
   sent exAtRow120 = [exPage2] \<and>
   allLoaded exAfterError = allLoaded exAtRow120 \<and>
   totalCount exAfterError = 100 \<and>
   ensureDataForRange 120 180 exAfterError = (exAfterError, None) \<and>
   totalCount (settle exEnv Rejected exAtRow120) = 250 \<and>
   allLoaded (settle exEnv Rejected exAtRow120) = allLoaded exAtRow120 \<and>
   snd (ensureDataForRange 120 180 (settle exEnv Rejected exAtRow120)) = Some exPage2 \<and>
   totalCount exSimple = 250 \<and> sent exSimple \<noteq> [] \<and> last (sent exSimple) = exPage2 \<and>
   totalCount (settle exEnv exErrorBody exSimple) = 100 \<and>
   allLoaded (settle exEnv exErrorBody exSimple) = allLoaded exSimple \<and>
   \<not> fetchInFlight (settle exEnv exErrorBody exSimple) \<and>
   maybeLoadMoreSimple exEnv (settle exEnv exErrorBody exSimple)
     = settle exEnv exErrorBody exSimple \<and>
   allLoaded exQueryChanged = replicate 100 ''alice'' \<and>
   allLoaded (settle exEnv JNull exQueryChanged) = []"
proof -
  have 6: "totalCount exSimple = 250 \<and> sent exSimple \<noteq> [] \<and> last (sent exSimple) = exPage2"
    by (simp add: exSimple_eq initTable_def)
  have 1: "ensureDataForRange 120 180 exAfterError = (exAfterError, None)"
    by (rule ensure_covered) (simp add: exAfterError_core exAtRow120_eq exVirtual_more)
  have 2: "allLoaded (settle exEnv JNull exQueryChanged) = []"
  proof -
    let ?rq = "\<lparr>rq_page = 1, rq_per_page = 100, rq_search = ''bob'', rq_active_only = False,
                 rq_sort_col = ''count'', rq_sort_dir = ''desc'', rq_append = False\<rparr>"
    have o: "outstanding exQueryChanged = (?rq, ContReload) # []"
      by (simp add: exQueryChanged_eq)
    have "core (settle exEnv JNull exQueryChanged)
          = core (fetchPageSettle (rq_append ?rq) exEnv JNull (exQueryChanged\<lparr>outstanding := []\<rparr>))"
      by (rule settle_core[OF o])
    then show ?thesis
      by (simp add: core_def fetchPageSettle_cases fetchPageCatch_def)
  qed
  have 3: "totalCount (settle exEnv Rejected exAtRow120) = 250"
    and 4: "allLoaded (settle exEnv Rejected exAtRow120) = allLoaded exAtRow120"
    using allLoaded_core[OF exAfterReject(1)]
    by (simp_all add: exVirtual_fields exAtRow120_eq)
  obtain st3 where "ensureDataForRange 120 180 (settle exEnv Rejected exAtRow120) = (st3, Some exPage2)"
    using ensure_same_request[OF ex_ensure exAfterReject] by blast
  then have 5: "snd (ensureDataForRange 120 180 (settle exEnv Rejected exAtRow120)) = Some exPage2"
    by simp
  from 1 2 3 4 5 6 show ?thesis
    by (simp add: exSimpleError exAfterError_core exAtRow120_eq exQueryChanged_eq exScrolled_eq
          exVirtual_fields exVirtual_more)
qed

section \<open>Lemmas on the source list\<close>

lemma appendChunk_stale: "token \<noteq> renderToken st \<Longrightarrow> appendChunk token filtered i st = st"
  by (simp add: appendChunk_def)

lemma appendChunk_keeps:
  "renderToken (appendChunk t f i st) = renderToken st"
  "roleOptions (appendChunk t f i st) = roleOptions st"
  "query (appendChunk t f i st) = query st"
  "selected (appendChunk t f i st) = selected st"
  by (simp_all add: appendChunk_def Let_def)

lemma currentFiltered_appendChunk: "currentFiltered (appendChunk t f i st) = currentFiltered st"
  by (simp add: currentFiltered_def appendChunk_keeps)

lemma currentFiltered_rafQueue: "currentFiltered (st\<lparr>rafQueue := q\<rparr>) = currentFiltered st"
  by (simp add: currentFiltered_def)

lemma appendChunk_current:
  assumes "t = renderToken st"
  shows "sourceList (appendChunk t f i st) =
           sourceList st @ map (createSourceItem (selected st))
             (take (min (length f) (i + SOURCE_RENDER_CHUNK) - i) (drop i f))"
    and "rafQueue (appendChunk t f i st) =
           rafQueue st @ (if min (length f) (i + SOURCE_RENDER_CHUNK) < length f
                          then [(t, f, min (length f) (i + SOURCE_RENDER_CHUNK))] else [])"
  using assms by (simp_all add: appendChunk_def Let_def)

lemma names_created: "map item_name (map (createSourceItem sel) rs) = map role_name rs"
  by (simp add: createSourceItem_def)

lemma take_chunk: "i \<le> e \<Longrightarrow> take i f @ take (e - i) (drop i f) = take e f"
  using take_add[of i "e - i" f] by simp

lemma good_alt:
  "good st \<longleftrightarrow>
     (\<forall>job \<in> set (rafQueue st). fst job \<le> renderToken st) \<and>
     ((filter (isCurrent (renderToken st)) (rafQueue st) = [] \<and>
         map item_name (sourceList st) = map role_name (currentFiltered st)) \<or>
      (\<exists>i. filter (isCurrent (renderToken st)) (rafQueue st) = [(renderToken st, currentFiltered st, i)] \<and>
            i < length (currentFiltered st) \<and>
            map item_name (sourceList st) = map role_name (take i (currentFiltered st))))"
proof -
  have single: "\<And>job js. filter (isCurrent (renderToken st)) (rafQueue st) = job # js \<Longrightarrow> fst job = renderToken st"
  proof -
    fix job js
    assume "filter (isCurrent (renderToken st)) (rafQueue st) = job # js"
    then have "job \<in> set (filter (isCurrent (renderToken st)) (rafQueue st))" by simp
    then show "fst job = renderToken st" by (simp add: isCurrent_def)
  qed
  show ?thesis
  proof (cases "filter (isCurrent (renderToken st)) (rafQueue st)")
    case Nil
    then show ?thesis by (simp add: good_def)
  next
    case (Cons job js)
    obtain t f i where job: "job = (t, f, i)" by (cases job)
    have t: "t = renderToken st" using single[OF Cons] job by simp
    show ?thesis
    proof (cases js)
      case Nil
      with Cons job t show ?thesis by (auto simp: good_def)
    next
      case (Cons a list)
      with \<open>filter (isCurrent (renderToken st)) (rafQueue st) = job # js\<close> show ?thesis
        by (simp add: good_def)
    qed
  qed
qed

lemma good_init: "good orgInit"
  by (simp add: good_def orgInit_def currentFiltered_def)

lemma good_toggle: "good st \<Longrightarrow> good (toggleRole name checked st)"
  by (simp add: good_alt toggleRole_def Let_def currentFiltered_def)

lemma bound_of_good: "good st \<Longrightarrow> \<forall>job \<in> set (rafQueue st). fst job \<le> renderToken st"
  by (simp add: good_def)

lemma good_render:
  assumes b: "\<forall>job \<in> set (rafQueue st). fst job \<le> renderToken st"
  shows "good (renderSourceList st)"
proof -
  let ?F = "currentFiltered st"
  let ?tok = "renderToken st + 1"
  let ?st1 = "st\<lparr>renderToken := ?tok, sourceList := [],
                 selectedMeta := (card (selected st), Some (length ?F, length (roleOptions st)))\<rparr>"
  let ?e = "min (length ?F) (0 + SOURCE_RENDER_CHUNK)"
  let ?r = "appendChunk ?tok ?F 0 ?st1"
  have r: "renderSourceList st = ?r"
    by (simp add: renderSourceList_def Let_def currentFiltered_def)
  have tok: "renderToken ?r = ?tok" by (simp add: appendChunk_keeps)
  have cf: "currentFiltered ?r = ?F"
    by (simp add: currentFiltered_appendChunk) (simp add: currentFiltered_def)
  have sl: "sourceList ?r = map (createSourceItem (selected st)) (take ?e ?F)"
    using appendChunk_current(1)[of ?tok ?st1 ?F 0] by simp
  have q: "rafQueue ?r = rafQueue st @ (if ?e < length ?F then [(?tok, ?F, ?e)] else [])"
    using appendChunk_current(2)[of ?tok ?st1 ?F 0] by simp
  have old: "filter (isCurrent ?tok) (rafQueue st) = []"
    unfolding filter_empty_conv isCurrent_def tok using b by fastforce
  have bound: "\<forall>job \<in> set (rafQueue ?r). fst job \<le> renderToken ?r"
    unfolding tok q using b by fastforce
  have names: "map item_name (sourceList ?r) = map role_name (take ?e ?F)"
    unfolding sl by (rule names_created)
  show ?thesis
  proof (cases "?e < length ?F")
    case True
    then have "filter (isCurrent (renderToken ?r)) (rafQueue ?r)
                 = [(renderToken ?r, currentFiltered ?r, ?e)]"
      unfolding tok q filter_append old cf by (simp add: isCurrent_def)
    moreover have "?e < length (currentFiltered ?r)" using True by (simp add: cf)
    moreover have "map item_name (sourceList ?r) = map role_name (take ?e (currentFiltered ?r))"
      using names by (simp add: cf)
    ultimately have "good ?r"
      using bound good_alt[of ?r] by blast
    then show ?thesis unfolding r .
  next
    case False
    then have e: "?e = length ?F" by simp
    have "filter (isCurrent (renderToken ?r)) (rafQueue ?r) = []"
      unfolding tok q filter_append old using False by simp
    moreover have "map item_name (sourceList ?r) = map role_name (currentFiltered ?r)"
      using names unfolding e by (simp add: cf)
    ultimately have "good ?r"
      using bound good_alt[of ?r] by blast
    then show ?thesis unfolding r .
  qed
qed

lemma good_job:
  assumes g: "good (s\<lparr>rafQueue := (job # js) @ rafQueue s\<rparr>)"
  shows "good ((runJob job s)\<lparr>rafQueue := js @ rafQueue (runJob job s)\<rparr>)"
proof -
  obtain t f i where job: "job = (t, f, i)" by (cases job)
  let ?s0 = "s\<lparr>rafQueue := (job # js) @ rafQueue s\<rparr>"
  have b0: "\<forall>j \<in> set ((job # js) @ rafQueue s). fst j \<le> renderToken s"
    using g by (simp add: good_alt)
  show ?thesis
  proof (cases "t = renderToken s")
    case False
    then have same: "runJob job s = s" by (simp add: runJob_def job appendChunk_stale)
    have f0: "filter (isCurrent (renderToken s)) ((job # js) @ rafQueue s)
              = filter (isCurrent (renderToken s)) (js @ rafQueue s)"
      using False by (simp add: isCurrent_def job)
    show ?thesis
      unfolding same using g b0 f0
      by (simp add: good_alt currentFiltered_def)
  next
    case True
    let ?F = "currentFiltered s"
    have cur: "isCurrent (renderToken s) job" using True by (simp add: isCurrent_def job)
    have f0: "filter (isCurrent (renderToken s)) ((job # js) @ rafQueue s)
              = job # filter (isCurrent (renderToken s)) (js @ rafQueue s)"
      using cur by simp
    have cf0: "currentFiltered ?s0 = ?F" by (simp add: currentFiltered_def)
    have "good ?s0 \<longleftrightarrow>
       (\<forall>j \<in> set ((job # js) @ rafQueue s). fst j \<le> renderToken s) \<and>
       ((job # filter (isCurrent (renderToken s)) (js @ rafQueue s) = [] \<and>
           map item_name (sourceList s) = map role_name ?F) \<or>
        (\<exists>i'. job # filter (isCurrent (renderToken s)) (js @ rafQueue s)
                 = [(renderToken s, ?F, i')] \<and>
              i' < length ?F \<and>
              map item_name (sourceList s) = map role_name (take i' ?F)))"
      unfolding good_alt[of ?s0] cf0 using f0 by simp
    with g obtain i' where
          one: "job # filter (isCurrent (renderToken s)) (js @ rafQueue s) = [(renderToken s, ?F, i')]"
      and i': "i' < length ?F"
      and nm: "map item_name (sourceList s) = map role_name (take i' ?F)"
      by blast
    from one job have fF: "f = ?F" and ii: "i = i'"
      and rest: "filter (isCurrent (renderToken s)) (js @ rafQueue s) = []" by simp_all
    let ?e = "min (length f) (i + SOURCE_RENDER_CHUNK)"
    let ?s' = "appendChunk t f i s"
    have run: "runJob job s = ?s'" by (simp add: runJob_def job)
    have tok: "renderToken ?s' = renderToken s" by (simp add: appendChunk_keeps)
    have cf: "currentFiltered ?s' = ?F" by (rule currentFiltered_appendChunk)
    have ie: "i \<le> ?e" using i' ii fF by simp
    have sl: "map item_name (sourceList ?s') = map role_name (take ?e f)"
    proof -
      have "map item_name (sourceList ?s')
            = map role_name (take i f) @ map role_name (take (?e - i) (drop i f))"
        unfolding appendChunk_current(1)[OF True] using nm ii fF
        by (simp add: createSourceItem_def)
      also have "\<dots> = map role_name (take i f @ take (?e - i) (drop i f))" by simp
      also have "\<dots> = map role_name (take ?e f)"
        by (simp only: take_chunk[OF ie, of f])
      finally show ?thesis .
    qed
    have q: "rafQueue ?s' = rafQueue s @ (if ?e < length f then [(t, f, ?e)] else [])"
      by (rule appendChunk_current(2)[OF True])
    let ?s'' = "?s'\<lparr>rafQueue := js @ rafQueue ?s'\<rparr>"
    have rq'': "rafQueue ?s'' = js @ rafQueue ?s'" by simp
    have tok'': "renderToken ?s'' = renderToken s" by (simp add: tok)
    have cf'': "currentFiltered ?s'' = ?F"
      by (simp add: currentFiltered_rafQueue cf)
    have sl'': "sourceList ?s'' = sourceList ?s'" by simp
    have bound: "\<forall>j \<in> set (rafQueue ?s''). fst j \<le> renderToken ?s''"
      unfolding rq'' tok'' q using b0 True by (auto simp: appendChunk_keeps)
    have split: "filter (isCurrent (renderToken s)) (js @ rafQueue ?s')
              = filter (isCurrent (renderToken s)) (if ?e < length f then [(t, f, ?e)] else [])"
    proof -
      have "filter (isCurrent (renderToken s)) (js @ rafQueue ?s')
            = filter (isCurrent (renderToken s)) (js @ rafQueue s)
              @ filter (isCurrent (renderToken s)) (if ?e < length f then [(t, f, ?e)] else [])"
        unfolding q by simp
      then show ?thesis unfolding rest by simp
    qed
    have "good ?s''"
    proof (cases "?e < length f")
      case True
      have "filter (isCurrent (renderToken s)) (js @ rafQueue ?s') = [(renderToken s, ?F, ?e)]"
        unfolding split if_P[OF True] using \<open>t = renderToken s\<close> fF
        by (simp add: isCurrent_def)
      then have a: "filter (isCurrent (renderToken ?s'')) (rafQueue ?s'')
                    = [(renderToken ?s'', currentFiltered ?s'', ?e)]"
        unfolding rq'' tok'' cf'' .
      have b: "?e < length (currentFiltered ?s'')"
        unfolding cf'' using True fF by simp
      have c: "map item_name (sourceList ?s'') = map role_name (take ?e (currentFiltered ?s''))"
        unfolding cf'' sl'' using sl fF by simp
      from a b c bound show ?thesis
        using good_alt[of ?s''] by blast
    next
      case False
      then have e: "?e = length f" by simp
      have "filter (isCurrent (renderToken s)) (js @ rafQueue ?s') = []"
        unfolding split if_not_P[OF False] by simp
      then have a: "filter (isCurrent (renderToken ?s'')) (rafQueue ?s'') = []"
        unfolding rq'' tok'' .
      have c: "map item_name (sourceList ?s'') = map role_name (currentFiltered ?s'')"
        unfolding cf'' sl'' using sl fF unfolding e by simp
      from a c bound show ?thesis
        using good_alt[of ?s''] by blast
    qed
    then show ?thesis unfolding run .
  qed
qed

lemma good_fold:
  "good (s\<lparr>rafQueue := js @ rafQueue s\<rparr>) \<Longrightarrow> good (fold runJob js s)"
proof (induction js arbitrary: s)
  case Nil
  then show ?case by simp
next
  case (Cons job js)
  have "good ((runJob job s)\<lparr>rafQueue := js @ rafQueue (runJob job s)\<rparr>)"
    using Cons.prems by (rule good_job)
  then have "good (fold runJob js (runJob job s))" by (rule Cons.IH)
  then show ?case by simp
qed

lemma good_frame: "good st \<Longrightarrow> good (animationFrame st)"
  unfolding animationFrame_def
  by (rule good_fold) simp

lemma good_step: "good st \<Longrightarrow> good (orgStep ev st)"
proof (cases ev)
  case (OrgSearch v)
  assume "good st"
  then have "\<forall>job \<in> set (rafQueue (st\<lparr>query := v\<rparr>)). fst job \<le> renderToken (st\<lparr>query := v\<rparr>)"
    by (simp add: good_def)
  then show ?thesis unfolding OrgSearch orgStep.simps orgSearchInput_def by (rule good_render)
next
  case (OrgPayload roles)
  assume "good st"
  then have "\<forall>job \<in> set (rafQueue (st\<lparr>roleOptions := roles\<rparr>)).
               fst job \<le> renderToken (st\<lparr>roleOptions := roles\<rparr>)"
    by (simp add: good_def)
  then show ?thesis unfolding OrgPayload orgStep.simps applyPayload_def by (rule good_render)
next
  case (OrgSaved roles)
  assume "good st"
  then have "\<forall>job \<in> set (rafQueue (st\<lparr>selected := {}, roleOptions := roles\<rparr>)).
               fst job \<le> renderToken (st\<lparr>selected := {}, roleOptions := roles\<rparr>)"
    by (simp add: good_def)
  then show ?thesis
    unfolding OrgSaved orgStep.simps consolidated_def applyPayload_def by (rule good_render)
next
  case (OrgToggle name checked)
  assume "good st"
  then show ?thesis unfolding OrgToggle orgStep.simps by (rule good_toggle)
next
  case OrgFrame
  assume "good st"
  then show ?thesis unfolding OrgFrame orgStep.simps by (rule good_frame)
qed

lemma good_run: "good st \<Longrightarrow> good (orgRun evs st)"
  by (induction evs arbitrary: st) (auto simp: good_step)

lemma good_prefix:
  "good st \<Longrightarrow> prefix (map item_name (sourceList st)) (map role_name (currentFiltered st))"
  unfolding good_alt by (auto simp: take_map[symmetric] take_is_prefix)

lemma renderSourceList_token: "renderToken (renderSourceList st) = renderToken st + 1"
  by (simp add: renderSourceList_def Let_def appendChunk_keeps)

lemma startsRender_token:
  "startsRender ev \<Longrightarrow> renderToken (orgStep ev st) = renderToken st + 1"
  by (cases ev)
     (simp_all add: orgSearchInput_def applyPayload_def consolidated_def renderSourceList_token)

lemma renderSourceList_eq:
  "renderSourceList st =
     st\<lparr>renderToken := renderToken st + 1,
        sourceList := map (createSourceItem (selected st))
                        (take (min (length (currentFiltered st)) SOURCE_RENDER_CHUNK)
                              (currentFiltered st)),
        selectedMeta := (card (selected st),
                         Some (length (currentFiltered st), length (roleOptions st))),
        rafQueue := rafQueue st @
          (if min (length (currentFiltered st)) SOURCE_RENDER_CHUNK < length (currentFiltered st)
           then [(renderToken st + 1, currentFiltered st,
                  min (length (currentFiltered st)) SOURCE_RENDER_CHUNK)]
           else [])\<rparr>"
  by (simp add: renderSourceList_def appendChunk_def Let_def currentFiltered_def)

lemma lowered:
  "toLowerCase ''Actor'' = ''actor''" "toLowerCase ''Sound'' = ''sound''"
  "toLowerCase ''a'' = ''a''" "toLowerCase [] = []"
  by (code_simp, code_simp, code_simp, code_simp)

lemma exRoles_match:
  "roleMatchesQuery \<lparr>role_name = ''Actor'', role_count = Some 3\<rparr> ''a''"
  "\<not> roleMatchesQuery \<lparr>role_name = ''Sound'', role_count = None\<rparr> ''a''"
  "roleMatchesQuery r []"
  by (simp_all add: roleMatchesQuery_def lowered)

lemma exRoles_filtered:
  "filter (\<lambda>r. roleMatchesQuery r ''a'') exRoles
     = replicate 250 \<lparr>role_name = ''Actor'', role_count = Some 3\<rparr>"
  "filter (\<lambda>r. roleMatchesQuery r []) exRoles = exRoles"
  "length exRoles = 300"
  by (simp_all add: exRoles_def exRoles_match)

lemma trimmed: "trim [] = []" "trim ''a'' = ''a''"
  by (simp_all add: trim_def isWhite_def)

lemma exOrg_eq:
  "exOrg = \<lparr>roleOptions = exRoles, selected = {}, query = ''a'', renderToken = 2,
             sourceList = replicate 220 \<lparr>item_name = ''Actor'', item_count = Some 3,
                                          item_checked = False\<rparr>,
             selectedMeta = (0, Some (250, 300)),
             rafQueue = [(1, exRoles, 220),
                         (2, replicate 250 \<lparr>role_name = ''Actor'', role_count = Some 3\<rparr>, 220)]\<rparr>"
proof -
  let ?s0 = "orgInit\<lparr>roleOptions := exRoles\<rparr>"
  have c0: "currentFiltered ?s0 = exRoles"
    by (simp add: currentFiltered_def orgInit_def trimmed lowered exRoles_filtered)
  have s1: "applyPayload exRoles orgInit =
     \<lparr>roleOptions = exRoles, selected = {}, query = [], renderToken = 1,
      sourceList = map (createSourceItem {}) (take 220 exRoles),
      selectedMeta = (0, Some (300, 300)),
      rafQueue = [(1, exRoles, 220)]\<rparr>"
    unfolding applyPayload_def renderSourceList_eq c0
    by (simp add: orgInit_def exRoles_filtered SOURCE_RENDER_CHUNK_def)
  let ?s1 = "\<lparr>roleOptions = exRoles, selected = {}, query = [], renderToken = 1,
      sourceList = map (createSourceItem {}) (take 220 exRoles),
      selectedMeta = (0, Some (300, 300)),
      rafQueue = [(1, exRoles, 220)]\<rparr>"
  have c1: "currentFiltered (?s1\<lparr>query := ''a''\<rparr>)
            = replicate 250 \<lparr>role_name = ''Actor'', role_count = Some 3\<rparr>"
    by (simp add: currentFiltered_def trimmed lowered exRoles_filtered)
  have "exOrg = orgSearchInput ''a'' ?s1"
    by (simp add: exOrg_def s1)
  then show ?thesis
    unfolding orgSearchInput_def renderSourceList_eq c1
    by (simp add: exRoles_filtered SOURCE_RENDER_CHUNK_def createSourceItem_def)
qed

text \<open>
  C9. \<^verbatim>\<open>renderSourceList\<close> takes a new token (\<^verbatim>\<open>++renderToken\<close>) and every batch of its
  job carries that token: a callback that \<^verbatim>\<open>appendChunk\<close> registers has the token and the
  filtered list of the call that registered it. Before it appends, \<^verbatim>\<open>appendChunk\<close>
  compares its token with \<^verbatim>\<open>renderToken\<close>; if they differ it returns with the state
  unchanged: nothing is appended and no further batch is registered. So, in every state
  that the page reaches from its start, once an event has started a new rendering (search
  input, a payload, a saved consolidation), each callback that was pending before it does
  nothing when it runs; and what the list shows is always a prefix of the roles that the
  current query selects.
\<close>

theorem chunked_render_epoch:
  "(token \<noteq> renderToken st \<longrightarrow> appendChunk token filtered i st = st) \<and>
   set (rafQueue (appendChunk token filtered i st))
     \<subseteq> set (rafQueue st)
       \<union> {(token, filtered, min (length filtered) (i + SOURCE_RENDER_CHUNK))} \<and>
   renderToken (renderSourceList st) = renderToken st + 1 \<and>
   (\<forall>job \<in> set (rafQueue (orgRun evs orgInit)). \<forall>ev. startsRender ev \<longrightarrow>
      runJob job (orgStep ev (orgRun evs orgInit)) = orgStep ev (orgRun evs orgInit)) \<and>
   prefix (map item_name (sourceList (orgRun evs orgInit)))
          (map role_name (currentFiltered (orgRun evs orgInit)))"
proof (intro conjI impI ballI allI)
  assume "token \<noteq> renderToken st"
  then show "appendChunk token filtered i st = st" by (rule appendChunk_stale)
next
  show "set (rafQueue (appendChunk token filtered i st))
     \<subseteq> set (rafQueue st)
       \<union> {(token, filtered, min (length filtered) (i + SOURCE_RENDER_CHUNK))}"
    by (auto simp: appendChunk_def Let_def)
next
  show "renderToken (renderSourceList st) = renderToken st + 1"
    by (rule renderSourceList_token)
next
  fix job ev
  let ?st = "orgRun evs orgInit"
  assume j: "job \<in> set (rafQueue ?st)" and s: "startsRender ev"
  have "good ?st" by (rule good_run) (rule good_init)
  then have "fst job \<le> renderToken ?st" using j bound_of_good by blast
  then have "fst job \<noteq> renderToken (orgStep ev ?st)"
    using startsRender_token[OF s, of ?st] by simp
  then show "runJob job (orgStep ev ?st) = orgStep ev ?st"
    by (cases job) (simp add: runJob_def appendChunk_stale)
next
  have "good (orgRun evs orgInit)" by (rule good_run) (rule good_init)
  then show "prefix (map item_name (sourceList (orgRun evs orgInit)))
          (map role_name (currentFiltered (orgRun evs orgInit)))"
    by (rule good_prefix)
qed

theorem chunked_render_epoch_witness:
  "appendChunk 1 exRoles 220 exOrg = exOrg \<and>
   runJob (2, replicate 250 \<lparr>role_name = ''Actor'', role_count = Some 3\<rparr>, 220)
          (orgStep (OrgSearch ''so'') exOrg)
     = orgStep (OrgSearch ''so'') exOrg"
proof -
  let ?evs = "[OrgPayload exRoles, OrgSearch ''a'']"
  let ?job = "(2, replicate 250 \<lparr>role_name = ''Actor'', role_count = Some 3\<rparr>, 220)
                :: int \<times> role list \<times> nat"
  have ex: "orgRun ?evs orgInit = exOrg" by (simp add: exOrg_def)
  have t: "1 \<noteq> renderToken exOrg" by (simp add: exOrg_eq)
  have j: "?job \<in> set (rafQueue (orgRun ?evs orgInit))"
    unfolding ex by (simp add: exOrg_eq)
  have s: "startsRender (OrgSearch ''so'')" by simp
  note T = chunked_render_epoch [where token = 1 and st = exOrg and filtered = exRoles
      and i = 220 and evs = ?evs]
  have 1: "appendChunk 1 exRoles 220 exOrg = exOrg"
    using T t by blast
  have "runJob ?job (orgStep (OrgSearch ''so'') (orgRun ?evs orgInit))
        = orgStep (OrgSearch ''so'') (orgRun ?evs orgInit)"
    using T j s by blast
  then have 2: "runJob ?job (orgStep (OrgSearch ''so'') exOrg) = orgStep (OrgSearch ''so'') exOrg"
    unfolding ex .
  from 1 2 show ?thesis by blast
qed

end
